theory Spec2Isabelle
  imports Complex_Main "HOL-Library.Word"
begin

section \<open>Numeric helpers of the JavaScript source\<close>

text \<open>
  JavaScript numbers are modelled as reals: the theory describes the arithmetic the
  source writes down, without the rounding of IEEE doubles or of the 32-bit float
  tables of the geometry cache.  The one exception is the control mapper
  \<^verbatim>\<open>sliderGain\<close>, which is also given with the rounding of doubles, because its
  denominator can round to zero.  Record fields carry a prefix (\<open>rgb_r\<close> for the
  field \<open>r\<close> of an RGB object, \<open>st_t\<close> for \<open>S.t\<close>), because a record
  selector is a global constant.
\<close>

definition TAU :: real where
  "TAU = pi * 2"

text \<open>\<^verbatim>\<open>const clamp = (x, a, b) => Math.min(b, Math.max(a, x));\<close>\<close>

definition clamp :: "'a::linorder \<Rightarrow> 'a \<Rightarrow> 'a \<Rightarrow> 'a" where
  "clamp x a b = min b (max a x)"

text \<open>\<^verbatim>\<open>Math.round\<close>: the nearest integer, halves rounded up.\<close>

definition js_round :: "real \<Rightarrow> int" where
  "js_round x = \<lfloor>x + 1 / 2\<rfloor>"

text \<open>The remainder operator \<^verbatim>\<open>%\<close> on numbers: the quotient is truncated towards
  zero, so the result has the sign of the dividend.\<close>

definition js_trunc :: "real \<Rightarrow> int" where
  "js_trunc x = (if 0 \<le> x then \<lfloor>x\<rfloor> else \<lceil>x\<rceil>)"

definition js_rem :: "real \<Rightarrow> real \<Rightarrow> real" where
  "js_rem x y = x - y * of_int (js_trunc (x / y))"

text \<open>\<^verbatim>\<open>x|0\<close>: conversion to a signed 32-bit integer.\<close>

definition to_int32 :: "int \<Rightarrow> int" where
  "to_int32 x = sint (word_of_int x :: 32 word)"

section \<open>Color utilities\<close>

record rgb =
  rgb_r :: real
  rgb_g :: real
  rgb_b :: real

record hsl =
  hsl_h :: real
  hsl_s :: real
  hsl_l :: real

text \<open>The character class \<^verbatim>\<open>[\da-f]\<close> under the flag \<^verbatim>\<open>i\<close>.\<close>

definition is_hex_digit :: "char \<Rightarrow> bool" where
  "is_hex_digit c =
     (let n = (of_char c :: nat)
      in (48 \<le> n \<and> n \<le> 57) \<or> (97 \<le> n \<and> n \<le> 102) \<or> (65 \<le> n \<and> n \<le> 70))"

definition hex_digit_value :: "char \<Rightarrow> nat" where
  "hex_digit_value c =
     (let n = (of_char c :: nat)
      in if 48 \<le> n \<and> n \<le> 57 then n - 48
         else if 97 \<le> n \<and> n \<le> 102 then n - 87
         else if 65 \<le> n \<and> n \<le> 70 then n - 55
         else 0)"

text \<open>\<^verbatim>\<open>parseInt(s, 16)\<close> on a string of hexadecimal digits.\<close>

definition parseInt16 :: "string \<Rightarrow> nat" where
  "parseInt16 s = foldl (\<lambda>acc c. 16 * acc + hex_digit_value c) 0 s"

text \<open>The three capture groups \<^verbatim>\<open>([\da-f]{2})([\da-f]{2})([\da-f]{2})$\<close> matched
  against the rest of the input.\<close>

definition hex_groups :: "string \<Rightarrow> (string \<times> string \<times> string) option" where
  "hex_groups s =
     (case s of
        [c1, c2, c3, c4, c5, c6] \<Rightarrow>
          if is_hex_digit c1 \<and> is_hex_digit c2 \<and> is_hex_digit c3 \<and>
             is_hex_digit c4 \<and> is_hex_digit c5 \<and> is_hex_digit c6
          then Some ([c1, c2], [c3, c4], [c5, c6]) else None
      | _ \<Rightarrow> None)"

text \<open>\<^verbatim>\<open>/^#?([\da-f]{2})([\da-f]{2})([\da-f]{2})$/i.exec(hex)\<close>: the optional
  \<^verbatim>\<open>#\<close> is tried first and given up when the rest does not match.\<close>

definition hex_exec :: "string \<Rightarrow> (string \<times> string \<times> string) option" where
  "hex_exec hex =
     (case hex of
        c # rest \<Rightarrow>
          if c = CHR ''#'' then
            (case hex_groups rest of Some m \<Rightarrow> Some m | None \<Rightarrow> hex_groups hex)
          else hex_groups hex
      | [] \<Rightarrow> hex_groups hex)"

definition hexToRgb :: "string \<Rightarrow> rgb" where
  "hexToRgb hex =
     (case hex_exec hex of
        None \<Rightarrow> \<lparr>rgb_r = 255, rgb_g = 255, rgb_b = 255\<rparr>
      | Some (m1, m2, m3) \<Rightarrow>
          \<lparr>rgb_r = real (parseInt16 m1), rgb_g = real (parseInt16 m2),
           rgb_b = real (parseInt16 m3)\<rparr>)"

definition hex_digits :: string where
  "hex_digits = ''0123456789abcdef''"

text \<open>\<^verbatim>\<open>v.toString(16)\<close> for a non-negative integer.\<close>

fun toString16 :: "nat \<Rightarrow> string" where
  "toString16 n =
     (if n < 16 then [hex_digits ! n]
      else toString16 (n div 16) @ [hex_digits ! (n mod 16)])"

declare toString16.simps [simp del]

definition padStart :: "nat \<Rightarrow> char \<Rightarrow> string \<Rightarrow> string" where
  "padStart n c s = replicate (n - length s) c @ s"

text \<open>\<^verbatim>\<open>const to = (v) => v.toString(16).padStart(2, '0');\<close> It is only applied to
  values clamped into 0..255.\<close>

definition to_hex :: "int \<Rightarrow> string" where
  "to_hex v = padStart 2 (CHR ''0'') (toString16 (nat v))"

text \<open>The template of \<^verbatim>\<open>rgbToHex\<close> lists the channels in the order red, blue,
  green; the final \<^verbatim>\<open>replace('#', '#')\<close> changes nothing.\<close>

definition rgbToHex :: "real \<Rightarrow> real \<Rightarrow> real \<Rightarrow> string" where
  "rgbToHex r g b =
     CHR ''#'' # to_hex (clamp (js_round r) 0 255)
       @ to_hex (clamp (js_round b) 0 255)
       @ to_hex (clamp (js_round g) 0 255)"


definition rgbToHsl :: "real \<Rightarrow> real \<Rightarrow> real \<Rightarrow> hsl" where
  "rgbToHsl r0 g0 b0 =
     (let r = r0 / 255; g = g0 / 255; b = b0 / 255;
          mx = max (max r g) b; mn = min (min r g) b;
          l = (mx + mn) / 2
      in if mx = mn then \<lparr>hsl_h = 0, hsl_s = 0, hsl_l = l\<rparr>
         else
           let d = mx - mn;
               s = (if l > 0.5 then d / (2 - mx - mn) else d / (mx + mn));
               h = (if mx = r then (g - b) / d + (if g < b then 6 else 0)
                    else if mx = g then (b - r) / d + 2
                    else (r - g) / d + 4)
           in \<lparr>hsl_h = h / 6, hsl_s = s, hsl_l = l\<rparr>)"

definition hue2rgb :: "real \<Rightarrow> real \<Rightarrow> real \<Rightarrow> real" where
  "hue2rgb p q t0 =
     (let t1 = (if t0 < 0 then t0 + 1 else t0);
          t = (if t1 > 1 then t1 - 1 else t1)
      in if t < 1 / 6 then p + (q - p) * 6 * t
         else if t < 1 / 2 then q
         else if t < 2 / 3 then p + (q - p) * (2 / 3 - t) * 6
         else p)"

definition hslToRgb :: "real \<Rightarrow> real \<Rightarrow> real \<Rightarrow> rgb" where
  "hslToRgb h s l =
     (if s = 0 then \<lparr>rgb_r = l * 255, rgb_g = l * 255, rgb_b = l * 255\<rparr>
      else
        let q = (if l < 0.5 then l * (1 + s) else l + s - l * s);
            p = 2 * l - q
        in \<lparr>rgb_r = hue2rgb p q (h + 1 / 3) * 255,
            rgb_g = hue2rgb p q h * 255,
            rgb_b = hue2rgb p q (h - 1 / 3) * 255\<rparr>)"

text \<open>The saturation handed to \<^verbatim>\<open>hslToRgb\<close> by \<^verbatim>\<open>boostSaturation\<close>
  (\<^verbatim>\<open>s2\<close> in the source, with \<^verbatim>\<open>vibrance = 0.5\<close>).\<close>

definition boosted_s :: "real \<Rightarrow> real \<Rightarrow> real" where
  "boosted_s s boost = clamp (s * (1 + 0.5 * (1 - s)) * boost) 0 1"

definition boostSaturation :: "string \<Rightarrow> real \<Rightarrow> string" where
  "boostSaturation hex boost =
     (let c = hexToRgb hex;
          x = rgbToHsl (rgb_r c) (rgb_g c) (rgb_b c);
          s2 = boosted_s (hsl_s x) boost;
          c2 = hslToRgb (hsl_h x) s2 (hsl_l x)
      in rgbToHex (rgb_r c2) (rgb_g c2) (rgb_b c2))"

text \<open>The HSL saturation of a hex color, as \<^verbatim>\<open>boostSaturation\<close> reads it.\<close>

definition hex_saturation :: "string \<Rightarrow> real" where
  "hex_saturation hex =
     (let c = hexToRgb hex in hsl_s (rgbToHsl (rgb_r c) (rgb_g c) (rgb_b c)))"

text \<open>The memoised palette of a color list: the first entry as it is, the others
  boosted.\<close>

definition palette :: "string list \<Rightarrow> real \<Rightarrow> string list" where
  "palette colors satBoost =
     map (\<lambda>(i, c). if i = 0 then c else boostSaturation c satBoost)
       (zip [0..<length colors] colors)"

section \<open>The color list of the control panel\<close>

definition initial_colors :: "string list" where
  "initial_colors = [''#ff0055'', ''#00d2ff'', ''#ffd166'']"

definition addColor :: "string list \<Rightarrow> string list" where
  "addColor cs = (if length cs \<ge> 12 then cs else cs @ [''#ffffff''])"

text \<open>\<^verbatim>\<open>cs.slice(0, -1)\<close> is the list without its last entry.\<close>

definition removeColor :: "string list \<Rightarrow> string list" where
  "removeColor cs = (if length cs \<le> 3 then cs else butlast cs)"

datatype color_op = AddColor | RemoveColor

fun apply_color_op :: "string list \<Rightarrow> color_op \<Rightarrow> string list" where
  "apply_color_op cs AddColor = addColor cs"
| "apply_color_op cs RemoveColor = removeColor cs"

definition apply_color_ops :: "string list \<Rightarrow> color_op list \<Rightarrow> string list" where
  "apply_color_ops cs ops = foldl apply_color_op cs ops"

section \<open>Control mappers\<close>

text \<open>\<^verbatim>\<open>sliderGain\<close> in exact arithmetic, as the render loop is described
  here; the version with rounding follows below.\<close>

definition sliderGain :: "real \<Rightarrow> real \<Rightarrow> real" where
  "sliderGain x0 k =
     (let x = clamp x0 0 1; d = 1 - exp (- k)
      in (1 - exp (- k * x)) / d)"

text \<open>The default steepness \<^verbatim>\<open>k = 2.4\<close>, used by every call in the render loop.\<close>

definition sliderGain_default :: "real \<Rightarrow> real" where
  "sliderGain_default x = sliderGain x 2.4"

definition sensShape :: "real \<Rightarrow> real" where
  "sensShape s = 0.22 + 0.50 * (clamp s 0 1 powr 1.15)"


text \<open>
  The same mapper with the rounding of JavaScript numbers.  A number is an IEEE 754
  binary64 value: every arithmetic result is rounded to the nearest value with 53
  significant bits, ties to the even one.  The exponent range is not bounded here (no
  overflow, no subnormal numbers); \<^verbatim>\<open>Math.exp\<close> is taken as correctly rounded.
\<close>

definition round_even :: "real \<Rightarrow> int" where
  "round_even y =
     (let f = \<lfloor>y\<rfloor>; r = y - of_int f
      in if r < 1 / 2 then f else if r > 1 / 2 then f + 1
         else if even f then f else f + 1)"

text \<open>The binary exponent of a non-zero number and the spacing of the doubles around it.\<close>

definition binade :: "real \<Rightarrow> int" where
  "binade x = \<lfloor>log 2 \<bar>x\<bar>\<rfloor>"

definition ulp :: "real \<Rightarrow> real" where
  "ulp x = 2 powr of_int (binade x - 52)"

definition round_double :: "real \<Rightarrow> real" where
  "round_double x =
     (if x = 0 then 0 else sgn x * of_int (round_even (\<bar>x\<bar> / ulp x)) * ulp x)"

text \<open>The result of a division of two finite numbers: a division of zero by zero is
  \<^verbatim>\<open>NaN\<close>, of a non-zero number by zero an infinity.\<close>

datatype js_number = Finite real | PosInfinity | NegInfinity | NaN

definition js_div :: "real \<Rightarrow> real \<Rightarrow> js_number" where
  "js_div a b =
     (if b = 0 then (if a = 0 then NaN else if 0 < a then PosInfinity else NegInfinity)
      else Finite (round_double (a / b)))"

text \<open>\<^verbatim>\<open>const d = 1 - Math.exp(-k);\<close>\<close>

definition sliderGain_d :: "real \<Rightarrow> real" where
  "sliderGain_d k = round_double (1 - round_double (exp (- k)))"

text \<open>\<^verbatim>\<open>x = clamp(x, 0, 1); ... return (1 - Math.exp(-k * x)) / d;\<close>\<close>

definition sliderGain_double :: "real \<Rightarrow> real \<Rightarrow> js_number" where
  "sliderGain_double x0 k =
     (let x = clamp x0 0 1; d = sliderGain_d k
      in js_div (round_double (1 - round_double (exp (round_double (- k * x))))) d)"

section \<open>Animation state and the render loop\<close>

record anim_state =
  st_t :: real
  st_rot :: real
  st_swirl :: real
  st_patV :: real
  st_rotV :: real
  st_swlV :: real
  st_fps :: real
  st_renderMs :: real

text \<open>The initial value of \<^verbatim>\<open>stateRef\<close>.\<close>

definition initial_state :: anim_state where
  "initial_state =
     \<lparr>st_t = 0, st_rot = 0, st_swirl = 0, st_patV = 0.4, st_rotV = 0.12,
      st_swlV = 0.4, st_fps = 60, st_renderMs = 0\<rparr>"

text \<open>The control values the loop closes over.\<close>

record controls =
  ctl_segments :: int
  ctl_complexity :: int
  ctl_run :: bool
  ctl_patternUI :: real
  ctl_rotationUI :: real
  ctl_swirlUI :: real
  ctl_sensitivityUI :: real

text \<open>The speed caps \<^verbatim>\<open>capPat\<close>, \<^verbatim>\<open>capRot\<close>, \<^verbatim>\<open>capSwl\<close>.\<close>

definition capPat :: real where "capPat = 1.8"
definition capRot :: real where "capRot = 0.40"
definition capSwl :: real where "capSwl = 1.6"

text \<open>The target velocities \<^verbatim>\<open>tgtPat\<close>, \<^verbatim>\<open>tgtRot\<close>, \<^verbatim>\<open>tgtSwl\<close>;
  \<^verbatim>\<open>Math.sign(rotationUI || 0)\<close> is the sign of the rotation control.\<close>

definition tgtPat :: "controls \<Rightarrow> real" where
  "tgtPat c = capPat * sensShape (ctl_sensitivityUI c) * sliderGain_default (ctl_patternUI c)"

definition tgtRot :: "controls \<Rightarrow> real" where
  "tgtRot c =
     capRot * sensShape (ctl_sensitivityUI c) * sliderGain_default \<bar>ctl_rotationUI c\<bar>
       * sgn (ctl_rotationUI c)"

definition tgtSwl :: "controls \<Rightarrow> real" where
  "tgtSwl c = capSwl * sensShape (ctl_sensitivityUI c) * sliderGain_default (ctl_swirlUI c)"

text \<open>One smoothing update \<^verbatim>\<open>v += (tgt - v) * a\<close> with
  \<^verbatim>\<open>a = 1 - Math.exp(-dt / 0.18)\<close>.\<close>

definition smooth :: "real \<Rightarrow> real \<Rightarrow> real \<Rightarrow> real" where
  "smooth v tgt dt = (let a = 1 - exp (- dt / 0.18) in v + (tgt - v) * a)"

text \<open>\<^verbatim>\<open>if (S.rot > TAU || S.rot < -TAU) S.rot = ((S.rot % TAU) + TAU) % TAU;\<close>\<close>

definition wrap_rot :: "real \<Rightarrow> real" where
  "wrap_rot rot =
     (if rot > TAU \<or> rot < - TAU then js_rem (js_rem rot TAU + TAU) TAU else rot)"

text \<open>\<^verbatim>\<open>if (S.t > 1e6 || S.t < -1e6) S.t = 0;\<close> and the same line for
  \<^verbatim>\<open>S.swirl\<close>.\<close>

definition drift_guard :: "real \<Rightarrow> real" where
  "drift_guard v = (if v > 1000000 \<or> v < - 1000000 then 0 else v)"

text \<open>The body of \<^verbatim>\<open>if (run) { ... }\<close>: smoothing towards the targets,
  integration and the bounds on the three phases, in the order of the source.\<close>

definition integrate :: "controls \<Rightarrow> real \<Rightarrow> anim_state \<Rightarrow> anim_state" where
  "integrate c dt S =
     (let patV = smooth (st_patV S) (tgtPat c) dt;
          rotV = smooth (st_rotV S) (tgtRot c) dt;
          swlV = smooth (st_swlV S) (tgtSwl c) dt;
          t1 = st_t S + dt * patV;
          rot1 = st_rot S + dt * rotV;
          swirl1 = st_swirl S + dt * swlV
      in S\<lparr>st_t := drift_guard t1, st_rot := wrap_rot rot1,
           st_swirl := drift_guard swirl1,
           st_patV := patV, st_rotV := rotV, st_swlV := swlV\<rparr>)"

text \<open>Samples per wedge, from the segment count and the complexity of the controls.\<close>

definition wedge_theta :: "int \<Rightarrow> real" where
  "wedge_theta segments = TAU / real_of_int (clamp (to_int32 segments) 2 128)"

definition sampleCount :: "int \<Rightarrow> int \<Rightarrow> int" where
  "sampleCount segments complexity =
     (let theta = wedge_theta segments;
          base = 320; perComp = 180;
          thetaNorm = theta / (TAU / 12);
          segTaper = clamp thetaNorm 0.25 1 powr 0.75
      in max 260 \<lfloor>(base + perComp * real_of_int complexity) * segTaper\<rfloor>)"

text \<open>The geometry cache.  The key \<^verbatim>\<open>`${L}|${theta.toFixed(6)}|${complexity}`\<close> is
  kept as its three components, the angle rounded to six decimals; the initial empty
  key is \<open>None\<close> and the initial \<^verbatim>\<open>null\<close> tables are empty lists.\<close>

record geometry =
  geo_key :: "(int \<times> int \<times> int) option"
  geo_t :: "real list"
  geo_sinAng :: "real list"
  geo_cosAng :: "real list"
  geo_sinPhi1 :: "real list"
  geo_cosPhi1 :: "real list"
  geo_sinPhi2 :: "real list"
  geo_cosPhi2 :: "real list"
  geo_sinPhi3 :: "real list"
  geo_cosPhi3 :: "real list"

definition initial_geometry :: geometry where
  "initial_geometry =
     \<lparr>geo_key = None, geo_t = [], geo_sinAng = [], geo_cosAng = [],
      geo_sinPhi1 = [], geo_cosPhi1 = [], geo_sinPhi2 = [], geo_cosPhi2 = [],
      geo_sinPhi3 = [], geo_cosPhi3 = []\<rparr>"

definition geometry_key :: "int \<Rightarrow> real \<Rightarrow> int \<Rightarrow> int \<times> int \<times> int" where
  "geometry_key L theta complexity = (L, round (theta * 10 ^ 6), complexity)"

definition harmonic_k1 :: "int \<Rightarrow> real" where
  "harmonic_k1 complexity = 6 + real_of_int complexity * 0.9"

definition harmonic_k2 :: "int \<Rightarrow> real" where
  "harmonic_k2 complexity = 10 + real_of_int complexity * 1.2"

definition harmonic_k3 :: "int \<Rightarrow> real" where
  "harmonic_k3 complexity = 14 + real_of_int complexity * 0.6"

text \<open>The tables filled by the loop \<^verbatim>\<open>for (let j = 0; j <= L; j++)\<close>.\<close>

definition buildGeometry :: "int \<Rightarrow> real \<Rightarrow> int \<Rightarrow> geometry" where
  "buildGeometry L theta complexity =
     (let spread = 2 + 0.15 * real_of_int complexity;
          k1 = harmonic_k1 complexity;
          k2 = harmonic_k2 complexity;
          k3 = harmonic_k3 complexity;
          js = [0..<nat L + 1];
          tj = (\<lambda>j. real j / real_of_int L);
          ang = (\<lambda>j. (tj j - 0.5) * theta * spread)
      in \<lparr>geo_key = Some (geometry_key L theta complexity),
          geo_t = map tj js,
          geo_sinAng = map (\<lambda>j. sin (ang j)) js,
          geo_cosAng = map (\<lambda>j. cos (ang j)) js,
          geo_sinPhi1 = map (\<lambda>j. sin (k1 * tj j)) js,
          geo_cosPhi1 = map (\<lambda>j. cos (k1 * tj j)) js,
          geo_sinPhi2 = map (\<lambda>j. sin (k2 * tj j)) js,
          geo_cosPhi2 = map (\<lambda>j. cos (k2 * tj j)) js,
          geo_sinPhi3 = map (\<lambda>j. sin (k3 * (tj j * 1.2))) js,
          geo_cosPhi3 = map (\<lambda>j. cos (k3 * (tj j * 1.2))) js\<rparr>)"

text \<open>What one animation frame reads from its environment: the timestamp handed to the
  callback and the measured duration of \<^verbatim>\<open>renderFrame\<close>.\<close>

record frame =
  fr_now :: real
  fr_renderMs :: real

text \<open>The time step of a frame: \<^verbatim>\<open>dtRaw = Math.max(0, (now - last) / 1000)\<close> and
  \<^verbatim>\<open>dt = Math.min(0.050, dtRaw)\<close>.\<close>

definition frame_dtRaw :: "real \<Rightarrow> real \<Rightarrow> real" where
  "frame_dtRaw last_t now = max 0 ((now - last_t) / 1000)"

definition frame_dt :: "real \<Rightarrow> real \<Rightarrow> real" where
  "frame_dt last_t now = min 0.050 (frame_dtRaw last_t now)"

text \<open>One call of \<^verbatim>\<open>loop\<close>.  The state is the closure variable \<^verbatim>\<open>last\<close>
  (here \<open>last_t\<close>), the animation state and the geometry cache; drawing is described
  separately below.\<close>

definition loop :: "controls \<Rightarrow> frame \<Rightarrow> real \<times> anim_state \<times> geometry
    \<Rightarrow> real \<times> anim_state \<times> geometry" where
  "loop c fr x =
     (case x of (last_t, S, G) \<Rightarrow>
        let now = fr_now fr;
            dtRaw = frame_dtRaw last_t now;
            dt = frame_dt last_t now;
            S1 = (if ctl_run c then integrate c dt S else S);
            theta = wedge_theta (ctl_segments c);
            L = sampleCount (ctl_segments c) (ctl_complexity c);
            G1 = (if geo_key G \<noteq> Some (geometry_key L theta (ctl_complexity c))
                  then buildGeometry L theta (ctl_complexity c) else G);
            S2 = S1\<lparr>st_renderMs := fr_renderMs fr\<rparr>;
            instFps = (if dtRaw > 0 then 1 / dtRaw else 60);
            S3 = S2\<lparr>st_fps := st_fps S2 + (instFps - st_fps S2) * 0.12\<rparr>
        in (now, S3, G1))"

text \<open>A run of the loop over a sequence of frames, each with the controls in force
  when it is drawn.  (When a control changes, the effect sets the loop up again with a
  fresh \<^verbatim>\<open>last\<close>; this only changes the time step of the next frame, and the
  timestamps of the frames are arbitrary here.)\<close>

fun run_frames :: "(controls \<times> frame) list \<Rightarrow> real \<times> anim_state \<times> geometry
    \<Rightarrow> real \<times> anim_state \<times> geometry" where
  "run_frames [] x = x"
| "run_frames ((c, fr) # frs) x = run_frames frs (loop c fr x)"


section \<open>The wedge renderer\<close>

text \<open>The frame phases \<^verbatim>\<open>a1\<close>, \<^verbatim>\<open>a2\<close>, \<^verbatim>\<open>a3\<close> of \<^verbatim>\<open>drawWedge\<close>.\<close>

definition frame_a1 :: "anim_state \<Rightarrow> real" where
  "frame_a1 S = 1.3 * st_t S + 0.15 * sin (st_swirl S)"

definition frame_a2 :: "anim_state \<Rightarrow> real" where
  "frame_a2 S = - 0.7 * st_t S + 0.20 * cos (st_swirl S * 0.7)"

definition frame_a3 :: "anim_state \<Rightarrow> real" where
  "frame_a3 S = 0.9 * st_t S + 0.05 * sin (st_swirl S * 1.4)"

text \<open>The radial value \<^verbatim>\<open>Rnorm\<close> of sample \<open>j\<close>, from the cached tables.\<close>

definition wedge_Rnorm :: "geometry \<Rightarrow> anim_state \<Rightarrow> nat \<Rightarrow> real" where
  "wedge_Rnorm G S j =
     (let a1 = frame_a1 S; a2 = frame_a2 S; a3 = frame_a3 S;
          sa1 = sin a1; ca1 = cos a1;
          sa2 = sin a2; ca2 = cos a2;
          sa3 = sin a3; ca3 = cos a3;
          s1 = geo_sinPhi1 G ! j * ca1 + geo_cosPhi1 G ! j * sa1;
          s2 = geo_sinPhi2 G ! j * ca2 + geo_cosPhi2 G ! j * sa2;
          s3 = geo_sinPhi3 G ! j * ca3 + geo_cosPhi3 G ! j * sa3
      in 0.55 + 0.30 * s1 + 0.15 * s2 + 0.10 * s3)"

definition wedge_point :: "real \<Rightarrow> geometry \<Rightarrow> anim_state \<Rightarrow> nat \<Rightarrow> real \<times> real" where
  "wedge_point radius G S j =
     (let r = clamp (wedge_Rnorm G S j) 0.05 0.98 * radius
      in (geo_cosAng G ! j * r, geo_sinAng G ! j * r))"

text \<open>The color bucket \<^verbatim>\<open>Math.floor(t * nColors) % nColors\<close> of a sample.\<close>

definition color_bucket :: "real \<Rightarrow> nat \<Rightarrow> real" where
  "color_bucket t nColors = js_rem (of_int \<lfloor>t * real nColors\<rfloor>) (real nColors)"

text \<open>The points of the path stroked for the color index \<open>cIdx\<close>: the samples
  \<open>j = 0, \<dots>, L\<close> with \<open>L = G.t.length - 1\<close> whose bucket is \<open>cIdx\<close>.\<close>

definition wedge_path :: "real \<Rightarrow> geometry \<Rightarrow> anim_state \<Rightarrow> nat \<Rightarrow> nat
    \<Rightarrow> (real \<times> real) list" where
  "wedge_path radius G S nColors cIdx =
     map (wedge_point radius G S)
       (filter (\<lambda>j. color_bucket (geo_t G ! j) nColors = real cIdx)
          [0..<length (geo_t G)])"

text \<open>The strokes of \<^verbatim>\<open>drawWedge\<close>: one per color whose path was started.\<close>

definition drawWedge :: "real \<Rightarrow> anim_state \<Rightarrow> string list \<Rightarrow> geometry
    \<Rightarrow> (string \<times> (real \<times> real) list) list" where
  "drawWedge radius S colors G =
     map (\<lambda>cIdx. (colors ! cIdx, wedge_path radius G S (length colors) cIdx))
       (filter (\<lambda>cIdx. wedge_path radius G S (length colors) cIdx \<noteq> [])
          [0..<length colors])"

text \<open>The radial value of the earlier renderer (v1.1 and v1.2), which evaluates the
  harmonic sum directly at the sample parameter \<open>t\<close>.\<close>

definition Rnorm_closed_form :: "int \<Rightarrow> anim_state \<Rightarrow> real \<Rightarrow> real" where
  "Rnorm_closed_form complexity S t =
     (let k1 = harmonic_k1 complexity;
          k2 = harmonic_k2 complexity;
          k3 = harmonic_k3 complexity;
          swirl = st_swirl S
      in 0.55
         + 0.30 * sin (k1 * (t + 0.15 * sin swirl) + 1.3 * st_t S)
         + 0.15 * cos (k2 * (t + 0.20 * cos (swirl * 0.7)) - 0.7 * st_t S)
         + 0.10 * sin (k3 * (t * 1.2 + 0.05 * sin (swirl * 1.4)) + 0.9 * st_t S))"

text \<open>The sample-count formula in the words of the specification.\<close>

definition spec_sampleCount :: "int \<Rightarrow> int \<Rightarrow> int" where
  "spec_sampleCount segments complexity =
     (let theta = 2 * pi / real_of_int segments;
          taper = clamp (theta / (2 * pi / 12)) 0.25 1 powr 0.75
      in max 260 \<lfloor>(320 + 180 * real_of_int complexity) * taper\<rfloor>)"

text \<open>A string is a hex color when it is six hexadecimal digits, with or without a
  leading \<^verbatim>\<open>#\<close>.\<close>

definition valid_hex_color :: "string \<Rightarrow> bool" where
  "valid_hex_color s \<longleftrightarrow>
     (let ds = (if s \<noteq> [] \<and> hd s = CHR ''#'' then tl s else s)
      in length ds = 6 \<and> list_all is_hex_digit ds)"

section \<open>Concrete settings\<close>

text \<open>The initial values of the controls (the arguments of \<^verbatim>\<open>useState\<close>).\<close>

definition default_controls :: controls where
  "default_controls =
     \<lparr>ctl_segments = 12, ctl_complexity = 6, ctl_run = True, ctl_patternUI = 0.6,
      ctl_rotationUI = 0.3, ctl_swirlUI = 0.5, ctl_sensitivityUI = 0.6\<rparr>"

text \<open>The rotation slider at its left end and the sensitivity slider at its right end.\<close>

definition reverse_controls :: controls where
  "reverse_controls = default_controls\<lparr>ctl_rotationUI := - 1, ctl_sensitivityUI := 1\<rparr>"

definition paused_controls :: controls where
  "paused_controls = default_controls\<lparr>ctl_run := False\<rparr>"

text \<open>Two frames 50 ms apart, the loop having been set up at time 0.\<close>

definition two_reverse_frames :: "(controls \<times> frame) list" where
  "two_reverse_frames =
     [(reverse_controls, \<lparr>fr_now = 50, fr_renderMs = 1\<rparr>),
      (reverse_controls, \<lparr>fr_now = 100, fr_renderMs = 1\<rparr>)]"

definition two_paused_frames :: "(controls \<times> frame) list" where
  "two_paused_frames =
     [(paused_controls, \<lparr>fr_now = 16, fr_renderMs = 2\<rparr>),
      (paused_controls, \<lparr>fr_now = 33, fr_renderMs = 3\<rparr>)]"

section \<open>Color utilities: properties\<close>

lemma is_hex_digit_hash [simp]: "\<not> is_hex_digit CHR ''#''"
  by (simp add: is_hex_digit_def)

lemma hex_exec_valid_iff: "hex_exec s \<noteq> None \<longleftrightarrow> valid_hex_color s"
  unfolding valid_hex_color_def hex_exec_def hex_groups_def Let_def
  by (auto split: list.splits option.splits if_splits)

lemma hexToRgb_white: "hexToRgb ''#ffffff'' = \<lparr>rgb_r = 255, rgb_g = 255, rgb_b = 255\<rparr>"
  by (simp add: hexToRgb_def hex_exec_def hex_groups_def is_hex_digit_def parseInt16_def
      hex_digit_value_def)

lemma to_hex_255: "to_hex 255 = ''ff''"
  by (simp add: to_hex_def padStart_def toString16.simps hex_digits_def)

lemma rgbToHex_white: "rgbToHex 255 255 255 = ''#ffffff''"
  by (simp add: rgbToHex_def js_round_def clamp_def to_hex_255)

lemma rgbToHsl_white: "rgbToHsl 255 255 255 = \<lparr>hsl_h = 0, hsl_s = 0, hsl_l = 1\<rparr>"
  by (simp add: rgbToHsl_def)

lemma boosted_s_zero: "boosted_s 0 boost = 0"
  by (simp add: boosted_s_def clamp_def)

lemma boostSaturation_of_white:
  assumes "hexToRgb hex = \<lparr>rgb_r = 255, rgb_g = 255, rgb_b = 255\<rparr>"
  shows "boostSaturation hex boost = ''#ffffff''"
  by (simp add: boostSaturation_def assms rgbToHsl_white boosted_s_zero hslToRgb_def
      rgbToHex_white)

lemma hex_digits_nth:
  assumes "d < 16"
  shows "is_hex_digit (hex_digits ! d) \<and> hex_digit_value (hex_digits ! d) = d"
proof -
  from assms have "d = 0 \<or> d = 1 \<or> d = 2 \<or> d = 3 \<or> d = 4 \<or> d = 5 \<or> d = 6 \<or> d = 7 \<or>
      d = 8 \<or> d = 9 \<or> d = 10 \<or> d = 11 \<or> d = 12 \<or> d = 13 \<or> d = 14 \<or> d = 15"
    by arith
  then show ?thesis
    by (auto simp: hex_digits_def is_hex_digit_def hex_digit_value_def)
qed

lemma to_hex_byte:
  assumes "0 \<le> v" "v \<le> 255"
  shows "to_hex v = [hex_digits ! (nat v div 16), hex_digits ! (nat v mod 16)]"
proof (cases "nat v < 16")
  case True
  then have "nat v div 16 = 0" "nat v mod 16 = nat v" by simp_all
  moreover have "hex_digits ! 0 = CHR ''0''" by (simp add: hex_digits_def)
  ultimately show ?thesis
    using True by (simp add: to_hex_def padStart_def toString16.simps)
next
  case False
  have "nat v div 16 < 16" using assms by (simp add: div_less_iff_less_mult)
  then show ?thesis
    using False by (simp add: to_hex_def padStart_def toString16.simps [of "nat v"]
        toString16.simps [of "nat v div 16"])
qed

lemma parseInt16_to_hex:
  assumes "0 \<le> v" "v \<le> 255"
  shows "\<exists>c1 c2. to_hex v = [c1, c2] \<and> is_hex_digit c1 \<and> is_hex_digit c2 \<and>
           int (parseInt16 [c1, c2]) = v"
proof -
  have d: "nat v div 16 < 16" "nat v mod 16 < 16"
    using assms by (simp_all add: div_less_iff_less_mult)
  have "parseInt16 [hex_digits ! (nat v div 16), hex_digits ! (nat v mod 16)] = nat v"
    using hex_digits_nth [OF d(1)] hex_digits_nth [OF d(2)] by (simp add: parseInt16_def)
  then show ?thesis
    using to_hex_byte [OF assms] hex_digits_nth [OF d(1)] hex_digits_nth [OF d(2)] assms
    by simp
qed

lemma js_round_int: "js_round (real_of_int v) = v"
  by (simp add: js_round_def)

text \<open>What the round trip returns on every color with integer channels in 0..255: the
  red channel, and the other two exchanged.\<close>

lemma hexToRgb_rgbToHex:
  assumes "0 \<le> r" "r \<le> 255" "0 \<le> g" "g \<le> 255" "0 \<le> b" "b \<le> 255"
  shows "hexToRgb (rgbToHex (real_of_int r) (real_of_int g) (real_of_int b))
         = \<lparr>rgb_r = real_of_int r, rgb_g = real_of_int b, rgb_b = real_of_int g\<rparr>"
proof -
  obtain r1 r2 where r: "to_hex r = [r1, r2]" "is_hex_digit r1" "is_hex_digit r2"
      "int (parseInt16 [r1, r2]) = r"
    using parseInt16_to_hex [OF assms(1,2)] by blast
  obtain g1 g2 where g: "to_hex g = [g1, g2]" "is_hex_digit g1" "is_hex_digit g2"
      "int (parseInt16 [g1, g2]) = g"
    using parseInt16_to_hex [OF assms(3,4)] by blast
  obtain b1 b2 where b: "to_hex b = [b1, b2]" "is_hex_digit b1" "is_hex_digit b2"
      "int (parseInt16 [b1, b2]) = b"
    using parseInt16_to_hex [OF assms(5,6)] by blast
  have hex: "rgbToHex (real_of_int r) (real_of_int g) (real_of_int b)
      = [CHR ''#'', r1, r2, b1, b2, g1, g2]"
    using assms by (simp add: rgbToHex_def js_round_int clamp_def r(1) g(1) b(1))
  have "hex_exec [CHR ''#'', r1, r2, b1, b2, g1, g2] = Some ([r1, r2], [b1, b2], [g1, g2])"
    using r(2,3) g(2,3) b(2,3) by (simp add: hex_exec_def hex_groups_def)
  then have "hexToRgb [CHR ''#'', r1, r2, b1, b2, g1, g2]
      = \<lparr>rgb_r = real (parseInt16 [r1, r2]), rgb_g = real (parseInt16 [b1, b2]),
         rgb_b = real (parseInt16 [g1, g2])\<rparr>"
    by (simp add: hexToRgb_def)
  moreover have "real (parseInt16 [r1, r2]) = real_of_int r"
    using arg_cong [OF r(4), of real_of_int] by simp
  moreover have "real (parseInt16 [b1, b2]) = real_of_int b"
    using arg_cong [OF b(4), of real_of_int] by simp
  moreover have "real (parseInt16 [g1, g2]) = real_of_int g"
    using arg_cong [OF g(4), of real_of_int] by simp
  ultimately show ?thesis
    unfolding hex by (simp only:)
qed

text \<open>
  Claim C3, as the code behaves: converting the color (0, 210, 255) to a hex string
  and back does not return it; the green and blue channels come back exchanged,
  because \<^verbatim>\<open>rgbToHex\<close> writes the channels in the order red, blue, green.
\<close>

theorem rgb_hex_roundtrip_swaps_channels:
  "rgbToHex 0 210 255 = ''#00ffd2'' \<and>
   hexToRgb (rgbToHex 0 210 255) = \<lparr>rgb_r = 0, rgb_g = 255, rgb_b = 210\<rparr>"
  by (simp add: rgbToHex_def js_round_def clamp_def to_hex_def padStart_def toString16.simps
      hex_digits_def hexToRgb_def hex_exec_def hex_groups_def is_hex_digit_def parseInt16_def
      hex_digit_value_def)

lemma palette_nth:
  assumes "i < length colors"
  shows "palette colors satBoost ! i
         = (if i = 0 then colors ! i else boostSaturation (colors ! i) satBoost)"
  using assms by (simp add: palette_def)

text \<open>
  Claim C10 as stated fails for the first palette entry: it is used as it is and never
  passes through \<^verbatim>\<open>hexToRgb\<close>, so the invalid entry \<^verbatim>\<open>red\<close> stays
  \<^verbatim>\<open>red\<close> in the palette instead of falling back to white.
\<close>

theorem invalid_first_entry_counterexample:
  "\<not> valid_hex_color ''red'' \<and>
   palette [''red'', ''#00d2ff'', ''#ffd166''] 1.7 ! 0 = ''red'' \<and>
   palette [''red'', ''#00d2ff'', ''#ffd166''] 1.7 ! 0 \<noteq> ''#ffffff''"
  by (simp add: valid_hex_color_def palette_nth)

text \<open>
  Claim C10, amended: for every input string that is not a six-hex-digit color (with or
  without a leading \<^verbatim>\<open>#\<close>), \<^verbatim>\<open>hexToRgb\<close> returns white (255, 255, 255) and
  does not fail; \<^verbatim>\<open>boostSaturation\<close> of such a string is \<^verbatim>\<open>#ffffff\<close> whatever
  the boost factor, and so is every palette entry after the first whose color is such a
  string.  The first palette entry is the first color as it is.
\<close>

theorem hexToRgb_invalid_is_white:
  assumes "\<not> valid_hex_color hex"
  shows "hexToRgb hex = \<lparr>rgb_r = 255, rgb_g = 255, rgb_b = 255\<rparr> \<and>
         boostSaturation hex boost = ''#ffffff'' \<and>
         (0 < i \<and> i < length colors \<and> colors ! i = hex \<longrightarrow>
            palette colors boost ! i = ''#ffffff'') \<and>
         (0 < length colors \<longrightarrow> palette colors boost ! 0 = colors ! 0)"
proof -
  have "hex_exec hex = None"
    using assms hex_exec_valid_iff [of hex] by blast
  then have w: "hexToRgb hex = \<lparr>rgb_r = 255, rgb_g = 255, rgb_b = 255\<rparr>"
    by (simp add: hexToRgb_def)
  show ?thesis
    using w boostSaturation_of_white [OF w] by (simp add: palette_nth)
qed

theorem hexToRgb_invalid_is_white_witness:
  "\<not> valid_hex_color ''red'' \<and>
   hexToRgb ''red'' = \<lparr>rgb_r = 255, rgb_g = 255, rgb_b = 255\<rparr> \<and>
   boostSaturation ''red'' 1.7 = ''#ffffff'' \<and>
   palette [''#ff0055'', ''red'', ''#ffd166''] 1.7 ! 1 = ''#ffffff'' \<and>
   palette [''#ff0055'', ''red'', ''#ffd166''] 1.7 ! 0 = ''#ff0055''"
proof -
  have h: "\<not> valid_hex_color ''red''"
    by (simp add: valid_hex_color_def)
  show ?thesis
    using h hexToRgb_invalid_is_white [OF h, where boost = "1.7" and i = 1
        and colors = "[''#ff0055'', ''red'', ''#ffd166'']"]
    by simp
qed

section \<open>The color list: properties\<close>

lemma addColor_length:
  "3 \<le> length cs \<Longrightarrow> length cs \<le> 12 \<Longrightarrow>
   3 \<le> length (addColor cs) \<and> length (addColor cs) \<le> 12"
  by (auto simp: addColor_def)

lemma removeColor_length:
  "3 \<le> length cs \<Longrightarrow> length cs \<le> 12 \<Longrightarrow>
   3 \<le> length (removeColor cs) \<and> length (removeColor cs) \<le> 12"
  by (auto simp: removeColor_def)

lemma apply_color_ops_length:
  "3 \<le> length cs \<Longrightarrow> length cs \<le> 12 \<Longrightarrow>
   3 \<le> length (apply_color_ops cs ops) \<and> length (apply_color_ops cs ops) \<le> 12"
  unfolding apply_color_ops_def
proof (induction ops arbitrary: cs)
  case Nil
  then show ?case by simp
next
  case (Cons a ops)
  show ?case
    using Cons.IH [of "apply_color_op cs a"] addColor_length [OF Cons.prems]
      removeColor_length [OF Cons.prems]
    by (cases a) auto
qed

text \<open>
  Claim C8: starting from the initial three colors, after any finite sequence of
  \<^verbatim>\<open>addColor\<close> and \<^verbatim>\<open>removeColor\<close> the list has between 3 and 12 entries;
  \<^verbatim>\<open>addColor\<close> appends an entry exactly when the length is below 12 and
  \<^verbatim>\<open>removeColor\<close> drops the last entry exactly when the length is above 3.
\<close>

theorem palette_length_invariant:
  "3 \<le> length (apply_color_ops initial_colors ops) \<and>
   length (apply_color_ops initial_colors ops) \<le> 12 \<and>
   addColor cs = (if length cs < 12 then cs @ [''#ffffff''] else cs) \<and>
   removeColor cs = (if length cs > 3 then butlast cs else cs)"
proof -
  have "3 \<le> length initial_colors" "length initial_colors \<le> 12"
    by (simp_all add: initial_colors_def)
  then show ?thesis
    using apply_color_ops_length [of initial_colors ops]
    by (auto simp: addColor_def removeColor_def)
qed

theorem palette_length_invariant_witness:
  "length (apply_color_ops initial_colors (replicate 11 AddColor @ replicate 13 RemoveColor))
     \<in> {3..12} \<and>
   addColor (replicate 12 ''#000000'') = replicate 12 ''#000000'' \<and>
   removeColor initial_colors = initial_colors"
  using palette_length_invariant [of "replicate 11 AddColor @ replicate 13 RemoveColor"
      "replicate 12 ''#000000''"]
    palette_length_invariant [of "[]" initial_colors]
  by (simp add: initial_colors_def)

section \<open>Control mappers: properties\<close>

lemma sliderGain_range:
  assumes "0 < k"
  shows "0 \<le> sliderGain x k \<and> sliderGain x k \<le> 1"
proof -
  define y where "y = clamp x 0 1"
  have y: "0 \<le> y" "y \<le> 1"
    by (simp_all add: y_def clamp_def)
  have d: "0 < 1 - exp (- k)"
    using assms by simp
  have ky: "0 \<le> k * y" "k * y \<le> k"
    using assms y by (simp_all add: mult_left_le)
  have n0: "0 \<le> 1 - exp (- (k * y))"
    using ky by simp
  have n1: "1 - exp (- (k * y)) \<le> 1 - exp (- k)"
    using ky by simp
  have eq: "sliderGain x k = (1 - exp (- (k * y))) / (1 - exp (- k))"
    by (simp add: sliderGain_def y_def Let_def)
  show ?thesis
    unfolding eq using d n0 n1 by (simp add: divide_le_eq_1)
qed

lemma sliderGain_default_one: "sliderGain_default 1 = 1"
  by (simp add: sliderGain_default_def sliderGain_def clamp_def)

lemma sensShape_one: "sensShape 1 = 0.72"
  by (simp add: sensShape_def clamp_def)

text \<open>In exact arithmetic the endpoints and the range hold for every positive
  steepness.\<close>

lemma sliderGain_exact_endpoints_and_range:
  assumes "0 < k"
  shows "sliderGain 0 k = 0 \<and> sliderGain 1 k = 1 \<and>
         0 \<le> sliderGain x k \<and> sliderGain x k \<le> 1"
proof -
  have "sliderGain 0 k = 0"
    by (simp add: sliderGain_def clamp_def)
  moreover have "sliderGain 1 k = 1"
    using assms by (simp add: sliderGain_def clamp_def)
  ultimately show ?thesis
    using sliderGain_range [OF assms, of x] by simp
qed

subsection \<open>Rounding to a double\<close>

lemma round_even_int [simp]: "round_even (of_int n) = n"
  by (simp add: round_even_def)

lemma round_even_bounds: "of_int \<lfloor>y\<rfloor> \<le> (of_int (round_even y) :: real) \<and> round_even y \<le> \<lfloor>y\<rfloor> + 1"
  by (simp add: round_even_def Let_def)

lemma round_even_mono:
  assumes "a \<le> b"
  shows "round_even a \<le> round_even b"
proof (cases "\<lfloor>a\<rfloor> = \<lfloor>b\<rfloor>")
  case True
  then show ?thesis
    using assms by (auto simp: round_even_def Let_def)
next
  case False
  then have "\<lfloor>a\<rfloor> < \<lfloor>b\<rfloor>"
    using assms floor_mono [of a b] by linarith
  then have "round_even a \<le> \<lfloor>b\<rfloor>"
    using round_even_bounds [of a] by linarith
  also have "\<lfloor>b\<rfloor> \<le> round_even b"
    using round_even_bounds [of b] by simp
  finally show ?thesis .
qed

lemma binade_bounds:
  assumes "x \<noteq> 0"
  shows "2 powr of_int (binade x) \<le> \<bar>x\<bar> \<and> \<bar>x\<bar> < 2 powr (of_int (binade x) + 1)"
  using assms floor_log_eq_powr_iff [of "\<bar>x\<bar>" 2 "binade x"] by (simp add: binade_def)

lemma binade_eqI:
  assumes "2 powr of_int e \<le> \<bar>x\<bar>" "\<bar>x\<bar> < 2 powr (of_int e + 1)"
  shows "binade x = e"
proof -
  have "0 < \<bar>x\<bar>"
    using assms(1) powr_gt_zero [of 2 "of_int e"] by linarith
  then show ?thesis
    using assms floor_log_eq_powr_iff [of "\<bar>x\<bar>" 2 e] by (simp add: binade_def)
qed

lemma ulp_pos: "0 < ulp x"
  by (simp add: ulp_def)

lemma scaled_bounds:
  assumes "x \<noteq> 0"
  shows "2 ^ 52 \<le> \<bar>x\<bar> / ulp x \<and> \<bar>x\<bar> / ulp x < 2 ^ 53"
proof -
  have u: "ulp x * 2 ^ 52 = 2 powr of_int (binade x)"
  proof -
    have "(2::real) ^ 52 = 2 powr 52" by simp
    then have "ulp x * 2 ^ 52 = 2 powr (of_int (binade x - 52) + 52)"
      unfolding ulp_def by (simp only: powr_add)
    then show ?thesis by simp
  qed
  have v: "ulp x * 2 ^ 53 = 2 powr (of_int (binade x) + 1)"
  proof -
    have "(2::real) ^ 53 = 2 powr 53" by simp
    then have "ulp x * 2 ^ 53 = 2 powr (of_int (binade x - 52) + 53)"
      unfolding ulp_def by (simp only: powr_add)
    then show ?thesis by (simp add: algebra_simps)
  qed
  show ?thesis
    using binade_bounds [OF assms] ulp_pos [of x] u v
    by (simp add: pos_le_divide_eq pos_divide_less_eq mult.commute)
qed

lemma round_double_pos_eq:
  assumes "0 < x"
  shows "round_double x = of_int (round_even (x / ulp x)) * ulp x"
  using assms by (simp add: round_double_def)

lemma binade_minus [simp]: "binade (- x) = binade x"
  by (simp add: binade_def)

lemma ulp_minus [simp]: "ulp (- x) = ulp x"
  by (simp add: ulp_def)

lemma round_double_minus: "round_double (- x) = - round_double x"
  by (simp add: round_double_def sgn_minus)

lemma round_double_zero [simp]: "round_double 0 = 0"
  by (simp add: round_double_def)

lemma round_double_pos_bounds:
  assumes "0 < x"
  shows "2 powr of_int (binade x) \<le> round_double x \<and>
         round_double x \<le> 2 powr (of_int (binade x) + 1)"
proof -
  have x: "x \<noteq> 0" "\<bar>x\<bar> = x"
    using assms by simp_all
  have s: "2 ^ 52 \<le> x / ulp x" "x / ulp x < 2 ^ 53"
    using scaled_bounds [OF x(1)] x(2) by simp_all
  have "round_even (of_int (2 ^ 52)) \<le> round_even (x / ulp x)"
    using s(1) by (intro round_even_mono) simp
  then have lo: "(2 ^ 52 :: real) \<le> of_int (round_even (x / ulp x))"
    unfolding round_even_int by (simp add: of_int_le_iff [symmetric] del: of_int_le_iff)
  have "round_even (x / ulp x) \<le> round_even (of_int (2 ^ 53))"
    using s(2) by (intro round_even_mono) simp
  then have hi: "of_int (round_even (x / ulp x)) \<le> (2 ^ 53 :: real)"
    unfolding round_even_int by (simp add: of_int_le_iff [symmetric] del: of_int_le_iff)
  have u: "2 ^ 52 * ulp x = 2 powr of_int (binade x)"
  proof -
    have "(2::real) ^ 52 = 2 powr 52" by simp
    then have "2 ^ 52 * ulp x = 2 powr (52 + of_int (binade x - 52))"
      unfolding ulp_def by (simp only: powr_add)
    then show ?thesis by simp
  qed
  have v: "2 ^ 53 * ulp x = 2 powr (of_int (binade x) + 1)"
  proof -
    have "(2::real) ^ 53 = 2 powr 53" by simp
    then have "2 ^ 53 * ulp x = 2 powr (53 + of_int (binade x - 52))"
      unfolding ulp_def by (simp only: powr_add)
    then show ?thesis by (simp add: algebra_simps)
  qed
  have "2 ^ 52 * ulp x \<le> of_int (round_even (x / ulp x)) * ulp x"
    using lo ulp_pos [of x] by (intro mult_right_mono) simp_all
  moreover have "of_int (round_even (x / ulp x)) * ulp x \<le> 2 ^ 53 * ulp x"
    using hi ulp_pos [of x] by (intro mult_right_mono) simp_all
  ultimately show ?thesis
    unfolding round_double_pos_eq [OF assms] u v by simp
qed

lemma round_double_pos: "0 < x \<Longrightarrow> 0 < round_double x"
  using round_double_pos_bounds [of x] powr_gt_zero [of 2 "of_int (binade x)"] by linarith

lemma binade_mono:
  assumes "0 < x" "x \<le> y"
  shows "binade x \<le> binade y"
  using assms by (simp add: binade_def floor_mono)

lemma round_double_mono_pos:
  assumes "0 < x" "x \<le> y"
  shows "round_double x \<le> round_double y"
proof (cases "binade x = binade y")
  case True
  then have u: "ulp x = ulp y"
    by (simp add: ulp_def)
  have "x / ulp y \<le> y / ulp y"
    using assms ulp_pos [of y] by (simp add: divide_right_mono)
  then have "round_even (x / ulp y) \<le> round_even (y / ulp y)"
    by (rule round_even_mono)
  then have "(of_int (round_even (x / ulp y)) :: real) \<le> of_int (round_even (y / ulp y))"
    by simp
  then have le: "of_int (round_even (x / ulp y)) * ulp y \<le> of_int (round_even (y / ulp y)) * ulp y"
    using ulp_pos [of y] by (intro mult_right_mono) simp_all
  have y: "0 < y"
    using assms by simp
  show ?thesis
    unfolding round_double_pos_eq [OF assms(1)] round_double_pos_eq [OF y] u by (rule le)
next
  case False
  then have "binade x + 1 \<le> binade y"
    using binade_mono [OF assms] by simp
  then have "real_of_int (binade x + 1) \<le> real_of_int (binade y)"
    by (simp only: of_int_le_iff)
  then have "real_of_int (binade x) + 1 \<le> real_of_int (binade y)"
    by simp
  then have "(2::real) powr (of_int (binade x) + 1) \<le> 2 powr of_int (binade y)"
    by (intro powr_mono) simp_all
  then show ?thesis
    using round_double_pos_bounds [of x] round_double_pos_bounds [of y] assms by linarith
qed

lemma round_double_mono:
  assumes "x \<le> y"
  shows "round_double x \<le> round_double y"
proof -
  consider "0 < x" | "x = 0" | "x < 0" "0 \<le> y" | "x < 0" "y < 0"
    by linarith
  then show ?thesis
  proof cases
    case 1
    then show ?thesis using assms by (rule round_double_mono_pos)
  next
    case 2
    then show ?thesis
      using assms round_double_pos [of y] by (cases "y = 0") auto
  next
    case 3
    have "round_double x < 0"
      using round_double_pos [of "- x"] 3(1) by (simp add: round_double_minus)
    moreover have "0 \<le> round_double y"
      using round_double_pos [of y] 3(2) by (cases "y = 0") auto
    ultimately show ?thesis by simp
  next
    case 4
    have "round_double (- y) \<le> round_double (- x)"
      using 4 assms by (intro round_double_mono_pos) simp_all
    then show ?thesis by (simp add: round_double_minus)
  qed
qed

lemma round_double_one [simp]: "round_double 1 = 1"
proof -
  have b: "binade 1 = 0"
    by (rule binade_eqI) simp_all
  have u: "ulp 1 = 1 / 2 ^ 52"
    by (simp add: ulp_def b powr_minus_divide)
  have "(1::real) / (1 / 2 ^ 52) = of_int (2 ^ 52)"
    by simp
  then have "round_even (1 / ulp 1) = 2 ^ 52"
    unfolding u by (simp only: round_even_int)
  then show ?thesis
    by (simp add: round_double_def u)
qed

lemma round_double_eq_0: "round_double z = 0 \<Longrightarrow> z = 0"
  using round_double_pos [of z] round_double_pos [of "- z"]
  by (cases "0 < z"; cases "z = 0") (auto simp: round_double_minus)

lemma round_double_nonneg:
  assumes "0 \<le> z"
  shows "0 \<le> round_double z"
proof -
  have "round_double 0 \<le> round_double z"
    using assms by (rule round_double_mono)
  then show ?thesis
    by (simp only: round_double_zero)
qed

lemma round_double_le_1:
  assumes "z \<le> 1"
  shows "round_double z \<le> 1"
proof -
  have "round_double z \<le> round_double 1"
    using assms by (rule round_double_mono)
  then show ?thesis
    by (simp only: round_double_one)
qed

lemma round_double_representable:
  assumes "2 powr of_int e \<le> \<bar>x\<bar>" "\<bar>x\<bar> < 2 powr (of_int e + 1)"
    and "x = of_int m * 2 powr of_int (e - 52)"
  shows "round_double x = x"
proof -
  define U :: real where "U = 2 powr of_int (e - 52)"
  have U: "0 < U"
    by (simp add: U_def)
  have x: "x = of_int m * U"
    using assms(3) by (simp add: U_def)
  have b: "binade x = e"
    using assms(1,2) by (rule binade_eqI)
  have u: "ulp x = U"
    by (simp add: ulp_def b U_def)
  have x0: "x \<noteq> 0"
    using assms(1) powr_gt_zero [of 2 "of_int e"] by auto
  have ax: "\<bar>x\<bar> = of_int \<bar>m\<bar> * U"
    using U by (simp add: x abs_mult)
  have "\<bar>x\<bar> / U = of_int \<bar>m\<bar>"
    using U by (simp add: ax)
  then have "round_even (\<bar>x\<bar> / U) = \<bar>m\<bar>"
    by (simp only: round_even_int)
  then have "round_double x = sgn x * (of_int \<bar>m\<bar> * U)"
    using x0 by (simp add: round_double_def u)
  also have "\<dots> = sgn x * \<bar>x\<bar>"
    by (simp only: ax)
  also have "\<dots> = x"
    by (simp add: sgn_mult_abs)
  finally show ?thesis .
qed

lemma round_double_idem: "round_double (round_double x) = round_double x"
proof -
  have pos: "round_double (round_double y) = round_double y" if y: "0 < y" for y
  proof -
    define n where "n = round_even (y / ulp y)"
    define e where "e = binade y"
    have r: "round_double y = of_int n * 2 powr of_int (e - 52)"
      using y by (simp add: round_double_pos_eq n_def ulp_def e_def)
    have bd: "2 powr of_int e \<le> round_double y" "round_double y \<le> 2 powr (of_int e + 1)"
      using round_double_pos_bounds [OF y] by (simp_all add: e_def)
    have rp: "\<bar>round_double y\<bar> = round_double y"
      using round_double_pos [OF y] by simp
    show ?thesis
    proof (cases "round_double y = 2 powr (of_int e + 1)")
      case True
      have t: "round_double y = of_int (2 ^ 52) * 2 powr of_int ((e + 1) - 52)"
      proof -
        have "real_of_int (2 ^ 52) = 2 powr 52" by simp
        then have "real_of_int (2 ^ 52) * 2 powr of_int ((e + 1) - 52)
            = 2 powr (52 + real_of_int ((e + 1) - 52))"
          by (simp only: powr_add)
        then show ?thesis using True by (simp add: algebra_simps)
      qed
      have "(2::real) powr (of_int e + 1) < 2 powr (of_int (e + 1) + 1)"
        by (intro powr_less_mono) simp_all
      then show ?thesis
        using True by (intro round_double_representable [OF _ _ t]) (simp_all add: rp)
    next
      case False
      then have "round_double y < 2 powr (of_int e + 1)"
        using bd(2) by simp
      then show ?thesis
        using bd(1) by (intro round_double_representable [OF _ _ r]) (simp_all add: rp)
    qed
  qed
  consider "0 < x" | "x = 0" | "x < 0"
    by linarith
  then show ?thesis
  proof cases
    case 1
    then show ?thesis by (rule pos)
  next
    case 2
    then show ?thesis by simp
  next
    case 3
    then have "round_double (round_double (- x)) = round_double (- x)"
      by (intro pos) simp
    then show ?thesis
      by (simp add: round_double_minus)
  qed
qed

lemma round_double_near_one:
  assumes "1 - 1 / 2 ^ 60 \<le> y" "y \<le> 1"
  shows "round_double y = 1"
proof -
  define c :: real where "c = 1 - 1 / 2 ^ 60"
  have c: "0 < c" "c \<noteq> 0" "\<bar>c\<bar> = c" "sgn c = 1"
    by (simp_all add: c_def)
  have b: "binade c = - 1"
    by (rule binade_eqI) (simp_all add: c_def powr_minus_divide)
  have u: "ulp c = 1 / 2 ^ 53"
    by (simp add: ulp_def b powr_minus_divide)
  have q: "c / (1 / 2 ^ 53) = 2 ^ 53 - 1 / 128"
    by (simp add: c_def)
  have r: "round_even (2 ^ 53 - 1 / 128) = 2 ^ 53"
    by (simp add: round_even_def)
  have "round_double c = sgn c * of_int (round_even (\<bar>c\<bar> / ulp c)) * ulp c"
    using c(2) by (simp only: round_double_def if_False)
  also have "\<dots> = 1 * of_int (2 ^ 53) * (1 / 2 ^ 53)"
    by (simp only: c(3) c(4) u q r)
  finally have "round_double c = 1"
    by simp
  then have "1 \<le> round_double y"
    using round_double_mono [of c y] assms(1) by (simp add: c_def)
  then show ?thesis
    using round_double_le_1 [OF assms(2)] by simp
qed

subsection \<open>The mapper on doubles\<close>

lemma sliderGain_terms:
  assumes "0 < k" and "round_double k = k" and "0 \<le> x" and "x \<le> 1"
  shows "round_double (exp (- k)) \<le> round_double (exp (round_double (- k * x))) \<and>
         round_double (exp (round_double (- k * x))) \<le> 1"
proof -
  have "- k \<le> - k * x" "- k * x \<le> 0"
    using assms by (simp_all add: mult_left_le)
  then have "round_double (- k) \<le> round_double (- k * x)"
    "round_double (- k * x) \<le> round_double 0"
    by (simp_all only: round_double_mono)
  then have "- k \<le> round_double (- k * x)" "round_double (- k * x) \<le> 0"
    by (simp_all add: round_double_minus assms(2))
  then have "exp (- k) \<le> exp (round_double (- k * x))" "exp (round_double (- k * x)) \<le> 1"
    by simp_all
  then show ?thesis
    using round_double_mono round_double_le_1 by blast
qed

lemma sliderGain_numerator:
  assumes "0 < k" and "round_double k = k" and "0 \<le> x" and "x \<le> 1"
  shows "0 \<le> round_double (1 - round_double (exp (round_double (- k * x)))) \<and>
         round_double (1 - round_double (exp (round_double (- k * x)))) \<le> sliderGain_d k"
proof -
  note t = sliderGain_terms [OF assms]
  have "0 \<le> 1 - round_double (exp (round_double (- k * x)))"
    using t by simp
  moreover have "1 - round_double (exp (round_double (- k * x))) \<le> 1 - round_double (exp (- k))"
    using t by simp
  ultimately show ?thesis
    unfolding sliderGain_d_def using round_double_nonneg round_double_mono by blast
qed

lemma sliderGain_double_finite:
  assumes "0 < k" and "round_double k = k" and "sliderGain_d k \<noteq> 0"
  shows "\<exists>y. sliderGain_double x k = Finite y \<and> 0 \<le> y \<and> y \<le> 1"
proof -
  define c where "c = clamp x 0 1"
  define n where "n = round_double (1 - round_double (exp (round_double (- k * c))))"
  have c: "0 \<le> c" "c \<le> 1"
    by (simp_all add: c_def clamp_def)
  have n: "0 \<le> n" "n \<le> sliderGain_d k"
    using sliderGain_numerator [OF assms(1,2) c] by (simp_all add: n_def)
  have d: "0 < sliderGain_d k"
    using n assms(3) by simp
  have "0 \<le> n / sliderGain_d k" "n / sliderGain_d k \<le> 1"
    using n d by simp_all
  then have "0 \<le> round_double (n / sliderGain_d k)" "round_double (n / sliderGain_d k) \<le> 1"
    using round_double_nonneg round_double_le_1 by blast+
  moreover have "sliderGain_double x k = Finite (round_double (n / sliderGain_d k))"
    using assms(3) by (simp add: sliderGain_double_def Let_def js_div_def n_def c_def)
  ultimately show ?thesis
    by blast
qed

lemma sliderGain_double_0:
  assumes "sliderGain_d k \<noteq> 0"
  shows "sliderGain_double 0 k = Finite 0"
  using assms by (simp add: sliderGain_double_def Let_def js_div_def clamp_def)

lemma sliderGain_double_1:
  assumes "round_double k = k" and "sliderGain_d k \<noteq> 0"
  shows "sliderGain_double 1 k = Finite 1"
  using assms
  by (simp add: sliderGain_double_def Let_def js_div_def clamp_def round_double_minus
      sliderGain_d_def)

lemma sliderGain_double_nan:
  assumes "0 < k" and "round_double k = k" and "sliderGain_d k = 0"
  shows "sliderGain_double x k = NaN"
proof -
  define c where "c = clamp x 0 1"
  have c: "0 \<le> c" "c \<le> 1"
    by (simp_all add: c_def clamp_def)
  have "round_double (1 - round_double (exp (round_double (- k * c)))) = 0"
    using sliderGain_numerator [OF assms(1,2) c] assms(3) by simp
  then show ?thesis
    using assms(3) by (simp add: sliderGain_double_def Let_def js_div_def c_def)
qed

lemma round_double_below_one: "round_double (1 - 1 / 2 ^ 53) = 1 - 1 / 2 ^ 53"
proof (rule round_double_representable [where e = "- 1" and m = "2 ^ 53 - 1"])
  show "2 powr real_of_int (- 1) \<le> \<bar>1 - 1 / 2 ^ 53 :: real\<bar>"
    by (simp add: powr_minus_divide)
  show "\<bar>1 - 1 / 2 ^ 53 :: real\<bar> < 2 powr (real_of_int (- 1) + 1)"
    by simp
  show "(1 - 1 / 2 ^ 53 :: real) = real_of_int (2 ^ 53 - 1) * 2 powr real_of_int (- 1 - 52)"
    by (simp add: powr_minus_divide)
qed

lemma sliderGain_d_pos:
  assumes "1 / 2 ^ 52 \<le> k"
  shows "0 < sliderGain_d k"
proof -
  have k: "0 < k"
    using assms by (rule less_le_trans [rotated]) simp
  have "1 + k \<le> exp k"
    by (rule exp_ge_add_one_self)
  then have "inverse (exp k) \<le> inverse (1 + k)"
    using k by (intro le_imp_inverse_le) simp_all
  also have "inverse (1 + k) \<le> inverse (1 + 1 / 2 ^ 52)"
    using assms by (intro le_imp_inverse_le) simp_all
  also have "\<dots> \<le> 1 - 1 / 2 ^ 53"
    by simp
  finally have "exp (- k) \<le> 1 - 1 / 2 ^ 53"
    by (simp add: exp_minus)
  then have "round_double (exp (- k)) \<le> round_double (1 - 1 / 2 ^ 53)"
    by (rule round_double_mono)
  then have "0 < 1 - round_double (exp (- k))"
    unfolding round_double_below_one by simp
  then show ?thesis
    unfolding sliderGain_d_def by (rule round_double_pos)
qed

lemma tiny_k_double: "round_double (1 / 2 ^ 60) = 1 / 2 ^ 60"
proof (rule round_double_representable [where e = "- 60" and m = "2 ^ 52"])
  show "2 powr real_of_int (- 60) \<le> \<bar>1 / 2 ^ 60 :: real\<bar>"
    by (simp add: powr_minus_divide)
  show "\<bar>1 / 2 ^ 60 :: real\<bar> < 2 powr (real_of_int (- 60) + 1)"
    by (simp add: powr_minus_divide)
  show "(1 / 2 ^ 60 :: real) = real_of_int (2 ^ 52) * 2 powr real_of_int (- 60 - 52)"
    by (simp add: powr_minus_divide)
qed

lemma sliderGain_d_tiny: "sliderGain_d (1 / 2 ^ 60) = 0"
proof -
  have "1 + (- (1 / 2 ^ 60)) \<le> exp (- (1 / 2 ^ 60) :: real)"
    by (rule exp_ge_add_one_self)
  then have "1 - 1 / 2 ^ 60 \<le> exp (- (1 / 2 ^ 60) :: real)"
    by simp
  moreover have "exp (- (1 / 2 ^ 60) :: real) \<le> 1"
    by simp
  ultimately have "round_double (exp (- (1 / 2 ^ 60))) = 1"
    by (rule round_double_near_one)
  then show ?thesis
    by (simp add: sliderGain_d_def)
qed

lemma default_k:
  "0 < round_double 2.4" "round_double (round_double 2.4) = round_double 2.4"
  "1 / 2 ^ 52 \<le> round_double 2.4"
proof -
  have "round_double 1 \<le> round_double 2.4"
    by (rule round_double_mono) simp
  then have "1 \<le> round_double 2.4"
    by (simp only: round_double_one)
  then show "0 < round_double 2.4" "1 / 2 ^ 52 \<le> round_double 2.4"
    by simp_all
  show "round_double (round_double 2.4) = round_double 2.4"
    by (rule round_double_idem)
qed

text \<open>
  Claim C7 as stated fails: for the steepness \<open>k = 2^-60\<close>, a double,
  \<^verbatim>\<open>Math.exp(-k)\<close> rounds to 1, the denominator \<^verbatim>\<open>d\<close> is 0, and
  \<^verbatim>\<open>sliderGain(0, k)\<close> and \<^verbatim>\<open>sliderGain(1, k)\<close> are \<^verbatim>\<open>NaN\<close>, not 0
  and 1.
\<close>

theorem sliderGain_tiny_steepness_counterexample:
  "(0::real) < 1 / 2 ^ 60 \<and> round_double (1 / 2 ^ 60) = 1 / 2 ^ 60 \<and>
   sliderGain_double 0 (1 / 2 ^ 60) = NaN \<and> sliderGain_double 0 (1 / 2 ^ 60) \<noteq> Finite 0 \<and>
   sliderGain_double 1 (1 / 2 ^ 60) = NaN \<and> sliderGain_double 1 (1 / 2 ^ 60) \<noteq> Finite 1"
proof -
  have k: "(0::real) < 1 / 2 ^ 60"
    by simp
  show ?thesis
    using k tiny_k_double sliderGain_double_nan [OF k tiny_k_double sliderGain_d_tiny]
    by simp
qed

text \<open>
  Claim C7, amended: for every steepness \<open>k > 0\<close> (a double) for which the
  denominator \<^verbatim>\<open>1 - Math.exp(-k)\<close> is not 0, \<^verbatim>\<open>sliderGain(0, k) = 0\<close>,
  \<^verbatim>\<open>sliderGain(1, k) = 1\<close> and \<^verbatim>\<open>sliderGain(x, k)\<close> lies in [0, 1] for every
  input \<open>x\<close>; the denominator is not 0 for every \<open>k \<ge> 2^-52\<close>, in particular for
  the default 2.4.  When the denominator is 0, the result is \<^verbatim>\<open>NaN\<close> for every
  input.
\<close>

theorem sliderGain_double_endpoints_and_range:
  assumes "0 < k" and "round_double k = k"
  shows "(sliderGain_d k \<noteq> 0 \<longrightarrow>
            sliderGain_double 0 k = Finite 0 \<and> sliderGain_double 1 k = Finite 1 \<and>
            (\<exists>y. sliderGain_double x k = Finite y \<and> 0 \<le> y \<and> y \<le> 1)) \<and>
         (sliderGain_d k = 0 \<longrightarrow> sliderGain_double x k = NaN) \<and>
         (1 / 2 ^ 52 \<le> k \<longrightarrow> sliderGain_d k \<noteq> 0)"
  using sliderGain_double_0 [of k] sliderGain_double_1 [OF assms(2)]
    sliderGain_double_finite [OF assms, of x] sliderGain_double_nan [OF assms, of x]
    sliderGain_d_pos [of k]
  by auto

theorem sliderGain_double_endpoints_and_range_witness:
  "0 < round_double 2.4 \<and> round_double (round_double 2.4) = round_double 2.4 \<and>
   1 / 2 ^ 52 \<le> round_double 2.4 \<and> sliderGain_d (round_double 2.4) \<noteq> 0 \<and>
   sliderGain_double 0 (round_double 2.4) = Finite 0 \<and>
   sliderGain_double 1 (round_double 2.4) = Finite 1 \<and>
   (\<exists>y. sliderGain_double (1 / 2) (round_double 2.4) = Finite y \<and> 0 \<le> y \<and> y \<le> 1) \<and>
   (0::real) < 1 / 2 ^ 60 \<and> round_double (1 / 2 ^ 60) = 1 / 2 ^ 60 \<and>
   sliderGain_d (1 / 2 ^ 60) = 0 \<and> sliderGain_double (1 / 2) (1 / 2 ^ 60) = NaN"
proof -
  have k: "(0::real) < 1 / 2 ^ 60"
    by simp
  note a = sliderGain_double_endpoints_and_range [OF default_k(1,2), of "1 / 2"]
  note b = sliderGain_double_endpoints_and_range [OF k tiny_k_double, of "1 / 2"]
  show ?thesis
    using a b default_k k tiny_k_double sliderGain_d_tiny by blast
qed

section \<open>Sample count: properties\<close>

lemma to_int32_small: "- (2 ^ 31) \<le> x \<Longrightarrow> x < 2 ^ 31 \<Longrightarrow> to_int32 x = x"
  by (simp add: to_int32_def sint_sbintrunc' signed_take_bit_int_eq_self)

lemma sampleCount_ge_260: "260 \<le> sampleCount segs cx"
  by (simp add: sampleCount_def Let_def)

lemma wedge_theta_12: "wedge_theta 12 = TAU / 12"
  by (simp add: wedge_theta_def to_int32_small clamp_def)

lemma sampleCount_12_6: "sampleCount 12 6 = 1400"
  by (simp add: sampleCount_def wedge_theta_12 clamp_def TAU_def)

text \<open>
  Claim C4: for every complexity in [1, 16] and segment count in [3, 64], the sample
  count of a frame is \<open>max(260, floor((320 + 180 * complexity) * taper))\<close> with
  \<open>taper = clamp(theta / (2 pi / 12), 0.25, 1) ^ 0.75\<close> and \<open>theta = 2 pi / segments\<close>;
  in particular it is at least 260.
\<close>

theorem sampleCount_formula:
  assumes "1 \<le> cx" "cx \<le> 16" "3 \<le> segs" "segs \<le> 64"
  shows "sampleCount segs cx = spec_sampleCount segs cx \<and> 260 \<le> sampleCount segs cx"
proof -
  have "to_int32 segs = segs"
    using assms by (simp add: to_int32_small)
  then have "sampleCount segs cx = spec_sampleCount segs cx"
    using assms
    by (simp add: sampleCount_def spec_sampleCount_def wedge_theta_def TAU_def clamp_def
        Let_def mult.commute)
  then show ?thesis
    using sampleCount_ge_260 [of segs cx] by simp
qed

theorem sampleCount_formula_witness:
  "((1::int) \<le> 6 \<and> (6::int) \<le> 16 \<and> (3::int) \<le> 12 \<and> (12::int) \<le> 64) \<and>
   sampleCount 12 6 = spec_sampleCount 12 6 \<and> 260 \<le> sampleCount 12 6 \<and>
   sampleCount 12 6 = 1400"
  using sampleCount_formula [of 6 12] sampleCount_12_6 by simp

section \<open>The render loop: properties\<close>

lemma loop_fst: "fst (loop c fr (l, S, G)) = fr_now fr"
  by (simp add: loop_def Let_def)

lemma loop_state:
  "fst (snd (loop c fr (l, S, G))) =
     (if ctl_run c then integrate c (frame_dt l (fr_now fr)) S else S)
       \<lparr>st_renderMs := fr_renderMs fr,
        st_fps := st_fps (if ctl_run c then integrate c (frame_dt l (fr_now fr)) S else S)
          + ((if frame_dtRaw l (fr_now fr) > 0 then 1 / frame_dtRaw l (fr_now fr) else 60)
             - st_fps (if ctl_run c then integrate c (frame_dt l (fr_now fr)) S else S))
            * 0.12\<rparr>"
  by (simp add: loop_def Let_def)

lemma loop_paused:
  assumes "\<not> ctl_run c"
  shows "fst (snd (loop c fr x)) \<lparr>st_fps := f, st_renderMs := m\<rparr>
         = (fst (snd x)) \<lparr>st_fps := f, st_renderMs := m\<rparr>"
  using assms by (cases x) (simp add: loop_def Let_def)

lemma run_frames_paused:
  assumes "list_all (\<lambda>(c, fr). \<not> ctl_run c) frs"
  shows "fst (snd (run_frames frs x)) \<lparr>st_fps := f, st_renderMs := m\<rparr>
         = (fst (snd x)) \<lparr>st_fps := f, st_renderMs := m\<rparr>"
  using assms
proof (induction frs arbitrary: x)
  case Nil
  then show ?case by simp
next
  case (Cons a frs)
  obtain c fr where a: "a = (c, fr)"
    by (cases a)
  from Cons.prems a have p: "\<not> ctl_run c" and rest: "list_all (\<lambda>(c, fr). \<not> ctl_run c) frs"
    by simp_all
  show ?case
    using Cons.IH [OF rest, where x = "loop c fr x"] loop_paused [OF p, where fr = fr and x = x and f = f and m = m]
    by (simp add: a)
qed

text \<open>
  Claim C5: when \<^verbatim>\<open>run\<close> is false in every one of a sequence of frames, the loop
  leaves \<^verbatim>\<open>t\<close>, \<^verbatim>\<open>rot\<close>, \<^verbatim>\<open>swirl\<close>, \<^verbatim>\<open>patV\<close>, \<^verbatim>\<open>rotV\<close> and
  \<^verbatim>\<open>swlV\<close> unchanged; the final state differs from the first at most in
  \<^verbatim>\<open>fps\<close> and \<^verbatim>\<open>renderMs\<close>.
\<close>

theorem paused_frames_hold_state:
  assumes "list_all (\<lambda>(c, fr). \<not> ctl_run c) frs"
    and "S' = fst (snd (run_frames frs (l, S, G)))"
  shows "st_t S' = st_t S \<and> st_rot S' = st_rot S \<and> st_swirl S' = st_swirl S \<and>
         st_patV S' = st_patV S \<and> st_rotV S' = st_rotV S \<and> st_swlV S' = st_swlV S \<and>
         S' \<lparr>st_fps := st_fps S, st_renderMs := st_renderMs S\<rparr> = S"
proof -
  have eq: "S' \<lparr>st_fps := st_fps S, st_renderMs := st_renderMs S\<rparr> = S"
    using run_frames_paused [OF assms(1), where x = "(l, S, G)" and f = "st_fps S"
        and m = "st_renderMs S"] assms(2)
    by simp
  have "st_t S' = st_t S"
    using arg_cong [OF eq, of st_t] by simp
  moreover have "st_rot S' = st_rot S"
    using arg_cong [OF eq, of st_rot] by simp
  moreover have "st_swirl S' = st_swirl S"
    using arg_cong [OF eq, of st_swirl] by simp
  moreover have "st_patV S' = st_patV S"
    using arg_cong [OF eq, of st_patV] by simp
  moreover have "st_rotV S' = st_rotV S"
    using arg_cong [OF eq, of st_rotV] by simp
  moreover have "st_swlV S' = st_swlV S"
    using arg_cong [OF eq, of st_swlV] by simp
  ultimately show ?thesis
    using eq by blast
qed

theorem paused_frames_hold_state_witness:
  "list_all (\<lambda>(c, fr). \<not> ctl_run c) two_paused_frames \<and>
   (let S' = fst (snd (run_frames two_paused_frames (0, initial_state, initial_geometry)))
    in st_t S' = 0 \<and> st_rot S' = 0 \<and> st_swirl S' = 0 \<and>
       st_patV S' = 0.4 \<and> st_rotV S' = 0.12 \<and> st_swlV S' = 0.4 \<and>
       S' \<lparr>st_fps := 60, st_renderMs := 0\<rparr> = initial_state)"
proof -
  have h: "list_all (\<lambda>(c, fr). \<not> ctl_run c) two_paused_frames"
    by (simp add: two_paused_frames_def paused_controls_def default_controls_def)
  show ?thesis
    using h paused_frames_hold_state [OF h refl, of 0 initial_state initial_geometry]
    by (simp add: initial_state_def)
qed

lemma integrate_rot:
  "st_rot (integrate c dt S) = wrap_rot (st_rot S + dt * smooth (st_rotV S) (tgtRot c) dt)"
  by (simp add: integrate_def Let_def)

lemma integrate_rotV: "st_rotV (integrate c dt S) = smooth (st_rotV S) (tgtRot c) dt"
  by (simp add: integrate_def Let_def)

lemma loop_rot:
  "st_rot (fst (snd (loop c fr (l, S, G)))) =
     (if ctl_run c then st_rot (integrate c (frame_dt l (fr_now fr)) S) else st_rot S)"
  by (simp add: loop_state)

lemma loop_rotV:
  "st_rotV (fst (snd (loop c fr (l, S, G)))) =
     (if ctl_run c then st_rotV (integrate c (frame_dt l (fr_now fr)) S) else st_rotV S)"
  by (simp add: loop_state)

lemma tgtRot_reverse: "tgtRot reverse_controls = - 0.288"
  by (simp add: tgtRot_def reverse_controls_def default_controls_def sliderGain_default_one
      sensShape_one capRot_def)

lemma exp_step_bounds: "0 < exp (- (5 / 18) :: real) \<and> exp (- (5 / 18) :: real) \<le> 18 / 23"
proof -
  have "1 + (5 / 18 :: real) \<le> exp (5 / 18)"
    by (rule exp_ge_add_one_self)
  then have "(23 / 18 :: real) \<le> exp (5 / 18)" by simp
  then have "inverse (exp (5 / 18 :: real)) \<le> inverse (23 / 18)"
    by (intro le_imp_inverse_le) simp_all
  then show ?thesis by (simp add: exp_minus)
qed

lemma smooth_step: "smooth v tgt (1 / 20) = v + (tgt - v) * (1 - exp (- (5 / 18)))"
  by (simp add: smooth_def)

lemma TAU_gt_1: "1 < TAU"
  using pi_ge_two by (simp add: TAU_def)

lemma wrap_rot_small: "\<bar>x\<bar> \<le> 1 \<Longrightarrow> wrap_rot x = x"
  using TAU_gt_1 by (auto simp: wrap_rot_def)


lemma reverse_run: "ctl_run reverse_controls"
  by (simp add: reverse_controls_def default_controls_def)

lemma two_reverse_frames_rot:
  "st_rot (fst (snd (run_frames two_reverse_frames (0, initial_state, initial_geometry))))
   = 0.05 * (0.408 * exp (- (5 / 18)) + 0.408 * (exp (- (5 / 18)))\<^sup>2 - 0.576)"
proof -
  define e :: real where "e = exp (- (5 / 18))"
  have e: "0 < e" "e \<le> 18 / 23"
    using exp_step_bounds by (simp_all add: e_def)
  have e1: "e \<le> 1" using e by simp
  define x1 where "x1 = loop reverse_controls \<lparr>fr_now = 50, fr_renderMs = 1\<rparr>
     (0, initial_state, initial_geometry)"
  obtain S1 G1 where x1: "x1 = (50, S1, G1)"
    using loop_fst [of reverse_controls "\<lparr>fr_now = 50, fr_renderMs = 1\<rparr>" 0 initial_state
        initial_geometry]
    by (cases x1) (simp add: x1_def)
  have S1: "S1 = fst (snd (loop reverse_controls \<lparr>fr_now = 50, fr_renderMs = 1\<rparr>
     (0, initial_state, initial_geometry)))"
    using x1 by (simp add: x1_def)
  have dt1: "frame_dt 0 50 = 0.05"
    by (simp add: frame_dt_def frame_dtRaw_def)
  have dt2: "frame_dt 50 100 = 0.05"
    by (simp add: frame_dt_def frame_dtRaw_def)
  have v1: "st_rotV S1 = 0.408 * e - 0.288"
    unfolding S1 loop_rotV
    by (simp add: reverse_run dt1 integrate_rotV tgtRot_reverse smooth_step initial_state_def
        e_def field_simps)
  have b1: "\<bar>0.05 * (0.408 * e - 0.288)\<bar> \<le> 1"
    using e e1 by (simp add: abs_le_iff)
  have a1: "st_rot initial_state
      + 0.05 * smooth (st_rotV initial_state) (tgtRot reverse_controls) 0.05
      = 0.05 * (0.408 * e - 0.288)"
    by (simp add: tgtRot_reverse smooth_step initial_state_def e_def field_simps)
  have "st_rot S1 = wrap_rot (st_rot initial_state
      + 0.05 * smooth (st_rotV initial_state) (tgtRot reverse_controls) 0.05)"
    unfolding S1 loop_rot by (simp add: reverse_run dt1 integrate_rot)
  then have r1: "st_rot S1 = 0.05 * (0.408 * e - 0.288)"
    unfolding a1 using wrap_rot_small [OF b1] by simp
  have ee: "e * e \<le> 1" "0 \<le> e * e"
    using e e1 by (simp_all add: mult_le_one)
  define q where "q = e * e"
  have "\<bar>0.05 * (0.408 * e + 0.408 * q - 0.576)\<bar> \<le> 1"
    using e e1 ee unfolding q_def [symmetric] by (simp add: abs_le_iff)
  then have b2: "\<bar>0.05 * (0.408 * e + 0.408 * (e * e) - 0.576)\<bar> \<le> 1"
    by (simp add: q_def)
  have a2: "st_rot S1 + 0.05 * smooth (st_rotV S1) (tgtRot reverse_controls) 0.05
      = 0.05 * (0.408 * e + 0.408 * (e * e) - 0.576)"
    by (simp add: tgtRot_reverse smooth_step v1 r1 e_def [symmetric] field_simps)
  have "st_rot (fst (snd (loop reverse_controls \<lparr>fr_now = 100, fr_renderMs = 1\<rparr> (50, S1, G1))))
     = wrap_rot (st_rot S1 + 0.05 * smooth (st_rotV S1) (tgtRot reverse_controls) 0.05)"
    unfolding loop_rot by (simp add: reverse_run dt2 integrate_rot)
  then have "st_rot (fst (snd (loop reverse_controls \<lparr>fr_now = 100, fr_renderMs = 1\<rparr> (50, S1, G1))))
     = 0.05 * (0.408 * e + 0.408 * (e * e) - 0.576)"
    unfolding a2 using wrap_rot_small [OF b2] by simp
  then show ?thesis
    using x1 by (simp add: two_reverse_frames_def x1_def e_def power2_eq_square)
qed

lemma rot_negative:
  "st_rot (fst (snd (run_frames two_reverse_frames (0, initial_state, initial_geometry)))) < 0"
proof -
  define e :: real where "e = exp (- (5 / 18))"
  have e: "0 < e" "e \<le> 18 / 23"
    using exp_step_bounds by (simp_all add: e_def)
  have "e\<^sup>2 \<le> (18 / 23)\<^sup>2"
    using e by (intro power_mono) simp_all
  then have "0.408 * e + 0.408 * e\<^sup>2 - 0.576 < 0"
    using e by (simp add: power2_eq_square)
  then show ?thesis
    unfolding two_reverse_frames_rot e_def [symmetric] by simp
qed

lemma js_rem_nonneg:
  assumes "0 \<le> x" "0 < y"
  shows "0 \<le> js_rem x y \<and> js_rem x y < y"
proof -
  have q: "0 \<le> x / y"
    using assms by simp
  have eq: "js_rem x y = x - y * of_int \<lfloor>x / y\<rfloor>"
    using q by (simp add: js_rem_def js_trunc_def)
  have a: "of_int \<lfloor>x / y\<rfloor> \<le> x / y"
    by simp
  have b: "x / y < of_int \<lfloor>x / y\<rfloor> + 1"
    by linarith
  have "y * of_int \<lfloor>x / y\<rfloor> \<le> y * (x / y)"
    using a assms(2) by (intro mult_left_mono) auto
  then have a': "y * of_int \<lfloor>x / y\<rfloor> \<le> x"
    using assms(2) by simp
  have "y * (x / y) < y * (of_int \<lfloor>x / y\<rfloor> + 1)"
    using b assms(2) by (intro mult_strict_left_mono) auto
  then have b': "x < y * (of_int \<lfloor>x / y\<rfloor> + 1)"
    using assms(2) by simp
  show ?thesis
    unfolding eq using a' b' by (simp add: algebra_simps)
qed

lemma js_rem_neg:
  assumes "x < 0" "0 < y"
  shows "- y < js_rem x y \<and> js_rem x y \<le> 0"
proof -
  have q: "\<not> 0 \<le> x / y"
    using assms by (simp add: divide_less_0_iff not_le)
  have eq: "js_rem x y = x - y * of_int \<lceil>x / y\<rceil>"
    using q by (simp add: js_rem_def js_trunc_def)
  have a: "x / y \<le> of_int \<lceil>x / y\<rceil>"
    by simp
  have b: "of_int \<lceil>x / y\<rceil> - 1 < x / y"
    by linarith
  have "y * (x / y) \<le> y * of_int \<lceil>x / y\<rceil>"
    using a assms(2) by (intro mult_left_mono) auto
  then have a': "x \<le> y * of_int \<lceil>x / y\<rceil>"
    using assms(2) by simp
  have "y * (of_int \<lceil>x / y\<rceil> - 1) < y * (x / y)"
    using b assms(2) by (intro mult_strict_left_mono) auto
  then have b': "y * (of_int \<lceil>x / y\<rceil> - 1) < x"
    using assms(2) by simp
  show ?thesis
    unfolding eq using a' b' by (simp add: algebra_simps)
qed

lemma js_rem_fold:
  assumes "0 < y"
  shows "0 \<le> js_rem (js_rem x y + y) y \<and> js_rem (js_rem x y + y) y < y"
proof -
  have "- y < js_rem x y"
    using js_rem_nonneg [of x y] js_rem_neg [of x y] assms by (cases "0 \<le> x") auto
  then have "0 \<le> js_rem x y + y"
    by simp
  then show ?thesis
    using js_rem_nonneg assms by blast
qed

lemma TAU_pos: "0 < TAU"
  by (simp add: TAU_def)

lemma wrap_rot_folded: "TAU < \<bar>r\<bar> \<Longrightarrow> 0 \<le> wrap_rot r \<and> wrap_rot r < TAU"
  using js_rem_fold [OF TAU_pos, of r] by (auto simp: wrap_rot_def)

lemma wrap_rot_kept: "\<bar>r\<bar> \<le> TAU \<Longrightarrow> wrap_rot r = r"
  by (auto simp: wrap_rot_def)

lemma wrap_rot_bound: "- TAU \<le> wrap_rot r \<and> wrap_rot r \<le> TAU"
  using wrap_rot_folded [of r] wrap_rot_kept [of r] TAU_pos by (cases "TAU < \<bar>r\<bar>") auto

lemma loop_rot_bound:
  assumes "- TAU \<le> st_rot (fst (snd x)) \<and> st_rot (fst (snd x)) \<le> TAU"
  shows "- TAU \<le> st_rot (fst (snd (loop c fr x))) \<and> st_rot (fst (snd (loop c fr x))) \<le> TAU"
proof -
  obtain l S G where x: "x = (l, S, G)"
    by (cases x)
  show ?thesis
    using assms wrap_rot_bound unfolding x loop_rot integrate_rot by simp
qed

lemma run_frames_rot_bound:
  assumes "- TAU \<le> st_rot (fst (snd x)) \<and> st_rot (fst (snd x)) \<le> TAU"
  shows "- TAU \<le> st_rot (fst (snd (run_frames frs x))) \<and>
         st_rot (fst (snd (run_frames frs x))) \<le> TAU"
  using assms
proof (induction frs arbitrary: x)
  case Nil
  then show ?case by simp
next
  case (Cons a frs)
  obtain c fr where a: "a = (c, fr)"
    by (cases a)
  show ?case
    using Cons.IH [OF loop_rot_bound [OF Cons.prems, of c fr]] by (simp add: a)
qed

text \<open>
  Claim C2 as stated fails: with the rotation slider at -1 and the sensitivity at 1, two
  frames of 50 ms from the initial state leave \<^verbatim>\<open>S.rot\<close> negative, outside
  [0, 2 pi).
\<close>

theorem rot_wraparound_counterexample:
  "\<not> (0 \<le> st_rot (fst (snd (run_frames two_reverse_frames
          (0, initial_state, initial_geometry)))) \<and>
      st_rot (fst (snd (run_frames two_reverse_frames
          (0, initial_state, initial_geometry)))) < 2 * pi)"
  using rot_negative by simp

text \<open>
  Claim C2, amended: for every sequence of frames from the initial state (any
  timestamps, any controls), the rotation angle lies within [-2 pi, 2 pi] after every
  frame; the integration step folds the integrated angle into [0, 2 pi) when it
  exceeds 2 pi in magnitude and keeps it as integrated otherwise.
\<close>

theorem rot_within_one_turn:
  assumes "S' = fst (snd (run_frames frs (l, initial_state, G)))"
  shows "- TAU \<le> st_rot S' \<and> st_rot S' \<le> TAU \<and>
         (ctl_run c \<longrightarrow>
            st_rot (fst (snd (loop c fr (l', S, G')))) =
              wrap_rot (st_rot S
                + frame_dt l' (fr_now fr) * smooth (st_rotV S) (tgtRot c) (frame_dt l' (fr_now fr)))) \<and>
         (TAU < \<bar>r\<bar> \<longrightarrow> 0 \<le> wrap_rot r \<and> wrap_rot r < TAU) \<and>
         (\<bar>r\<bar> \<le> TAU \<longrightarrow> wrap_rot r = r)"
proof -
  have "- TAU \<le> st_rot (fst (snd (l, initial_state, G))) \<and>
        st_rot (fst (snd (l, initial_state, G))) \<le> TAU"
    using TAU_pos by (simp add: initial_state_def)
  then have "- TAU \<le> st_rot S' \<and> st_rot S' \<le> TAU"
    unfolding assms by (rule run_frames_rot_bound)
  then show ?thesis
    using wrap_rot_folded [of r] wrap_rot_kept [of r] by (simp add: loop_rot integrate_rot)
qed

theorem rot_within_one_turn_witness:
  "- TAU \<le> st_rot (fst (snd (run_frames two_reverse_frames
        (0, initial_state, initial_geometry)))) \<and>
   st_rot (fst (snd (run_frames two_reverse_frames
        (0, initial_state, initial_geometry)))) \<le> TAU \<and>
   ctl_run reverse_controls \<and>
   st_rot (fst (snd (loop reverse_controls \<lparr>fr_now = 50, fr_renderMs = 1\<rparr>
        (0, initial_state, initial_geometry))))
     = wrap_rot (0 + 0.05 * smooth 0.12 (tgtRot reverse_controls) 0.05) \<and>
   TAU < \<bar>8\<bar> \<and> 0 \<le> wrap_rot 8 \<and> wrap_rot 8 < TAU \<and>
   \<bar>1\<bar> \<le> TAU \<and> wrap_rot 1 = 1"
proof -
  have h8: "TAU < \<bar>8\<bar>"
    using pi_less_4 by (simp add: TAU_def)
  have h1: "\<bar>1\<bar> \<le> TAU"
    using TAU_gt_1 by simp
  have dt: "frame_dt 0 (fr_now \<lparr>fr_now = 50, fr_renderMs = 1\<rparr>) = 0.05"
    by (simp add: frame_dt_def frame_dtRaw_def)
  note t8 = rot_within_one_turn [OF refl, where frs = two_reverse_frames and l = 0
      and G = initial_geometry and c = reverse_controls and r = 8
      and fr = "\<lparr>fr_now = 50, fr_renderMs = 1\<rparr>" and l' = 0 and S = initial_state
      and G' = initial_geometry]
  note t1 = rot_within_one_turn [OF refl, where frs = two_reverse_frames and l = 0
      and G = initial_geometry and c = reverse_controls and r = 1]
  have "st_rot (fst (snd (loop reverse_controls \<lparr>fr_now = 50, fr_renderMs = 1\<rparr>
        (0, initial_state, initial_geometry))))
     = wrap_rot (0 + 0.05 * smooth 0.12 (tgtRot reverse_controls) 0.05)"
    using t8 reverse_run unfolding dt by (simp add: initial_state_def)
  then show ?thesis
    using t8 t1 h8 h1 reverse_run by blast
qed

section \<open>The drift guard: properties\<close>

lemma drift_guard_bound: "\<bar>drift_guard v\<bar> \<le> 1000000"
  by (auto simp: drift_guard_def)

lemma drift_guard_cases: "drift_guard v = (if \<bar>v\<bar> > 1000000 then 0 else v)"
  by (auto simp: drift_guard_def)

lemma integrate_t:
  "st_t (integrate c dt S) = drift_guard (st_t S + dt * smooth (st_patV S) (tgtPat c) dt)"
  by (simp add: integrate_def Let_def)

lemma integrate_swirl:
  "st_swirl (integrate c dt S)
     = drift_guard (st_swirl S + dt * smooth (st_swlV S) (tgtSwl c) dt)"
  by (simp add: integrate_def Let_def)

text \<open>
  Claim C6: after the integration step of a running frame, \<open>|S.t| \<le> 1e6\<close> and
  \<open>|S.swirl| \<le> 1e6\<close>: the integrated pattern time (and likewise the integrated
  swirl phase) is reset to 0 when its magnitude exceeds 1e6 and is kept as integrated
  otherwise.
\<close>

theorem drift_guard_after_running_frame:
  assumes "ctl_run c"
    and "S' = fst (snd (loop c fr (l, S, G)))"
    and "dt = frame_dt l (fr_now fr)"
    and "t1 = st_t S + dt * smooth (st_patV S) (tgtPat c) dt"
    and "sw1 = st_swirl S + dt * smooth (st_swlV S) (tgtSwl c) dt"
  shows "\<bar>st_t S'\<bar> \<le> 1000000 \<and> \<bar>st_swirl S'\<bar> \<le> 1000000 \<and>
         st_t S' = (if \<bar>t1\<bar> > 1000000 then 0 else t1) \<and>
         st_swirl S' = (if \<bar>sw1\<bar> > 1000000 then 0 else sw1)"
proof -
  have t: "st_t S' = drift_guard t1"
    using assms by (simp add: loop_state integrate_t)
  have sw: "st_swirl S' = drift_guard sw1"
    using assms by (simp add: loop_state integrate_swirl)
  show ?thesis
    unfolding t sw using drift_guard_bound [of t1] drift_guard_bound [of sw1]
    by (simp add: drift_guard_cases)
qed

theorem drift_guard_after_running_frame_witness:
  "ctl_run default_controls \<and>
   (let S' = fst (snd (loop default_controls \<lparr>fr_now = 0, fr_renderMs = 1\<rparr>
        (0, initial_state\<lparr>st_t := 2000000, st_swirl := 7\<rparr>, initial_geometry)))
    in \<bar>st_t S'\<bar> \<le> 1000000 \<and> \<bar>st_swirl S'\<bar> \<le> 1000000 \<and>
       st_t S' = 0 \<and> st_swirl S' = 7)"
proof -
  have h: "ctl_run default_controls"
    by (simp add: default_controls_def)
  have dt: "frame_dt 0 (fr_now \<lparr>fr_now = 0, fr_renderMs = 1\<rparr>) = 0"
    by (simp add: frame_dt_def frame_dtRaw_def)
  show ?thesis
    using h drift_guard_after_running_frame [OF h refl dt [symmetric] refl refl,
        where S = "initial_state\<lparr>st_t := 2000000, st_swirl := 7\<rparr>" and G = initial_geometry]
    by (simp add: Let_def)
qed

section \<open>Saturation boost: properties\<close>

lemma hex_digit_value_le: "hex_digit_value c \<le> 15"
  by (auto simp: hex_digit_value_def Let_def)

lemma parseInt16_pair: "parseInt16 [a, b] \<le> 255"
  using hex_digit_value_le [of a] hex_digit_value_le [of b]
  by (simp add: parseInt16_def)

lemma hex_groups_Some:
  assumes "hex_groups s = Some (m1, m2, m3)"
  shows "parseInt16 m1 \<le> 255 \<and> parseInt16 m2 \<le> 255 \<and> parseInt16 m3 \<le> 255"
  using assms parseInt16_pair
  by (auto simp: hex_groups_def split: list.splits if_splits)

lemma hex_exec_Some:
  assumes "hex_exec s = Some (m1, m2, m3)"
  shows "parseInt16 m1 \<le> 255 \<and> parseInt16 m2 \<le> 255 \<and> parseInt16 m3 \<le> 255"
  using assms hex_groups_Some
  by (auto simp: hex_exec_def split: list.splits if_splits option.splits)

lemma hexToRgb_range:
  "0 \<le> rgb_r (hexToRgb hex) \<and> rgb_r (hexToRgb hex) \<le> 255 \<and>
   0 \<le> rgb_g (hexToRgb hex) \<and> rgb_g (hexToRgb hex) \<le> 255 \<and>
   0 \<le> rgb_b (hexToRgb hex) \<and> rgb_b (hexToRgb hex) \<le> 255"
proof (cases "hex_exec hex")
  case None
  then show ?thesis by (simp add: hexToRgb_def)
next
  case (Some m)
  obtain m1 m2 m3 where m: "m = (m1, m2, m3)" by (cases m)
  show ?thesis using hex_exec_Some [of hex m1 m2 m3] Some m
    by (simp add: hexToRgb_def)
qed

lemma rgbToHsl_s_range:
  assumes "0 \<le> r" "r \<le> 255" "0 \<le> g" "g \<le> 255" "0 \<le> b" "b \<le> 255"
  shows "0 \<le> hsl_s (rgbToHsl r g b) \<and> hsl_s (rgbToHsl r g b) \<le> 1"
proof -
  define mx where "mx = max (max (r / 255) (g / 255)) (b / 255)"
  define mn where "mn = min (min (r / 255) (g / 255)) (b / 255)"
  have mx: "mx \<le> 1" using assms by (simp add: mx_def)
  have mn: "0 \<le> mn" using assms by (simp add: mn_def)
  have "mn \<le> r / 255" by (simp add: mn_def min.coboundedI1)
  moreover have "r / 255 \<le> mx" by (simp add: mx_def max.coboundedI1)
  ultimately have le: "mn \<le> mx" by simp
  show ?thesis
  proof (cases "mx = mn")
    case True
    then show ?thesis by (simp add: rgbToHsl_def Let_def mx_def mn_def)
  next
    case False
    then have lt: "mn < mx" using le by simp
    have s: "hsl_s (rgbToHsl r g b) =
        (if (mx + mn) / 2 > 0.5 then (mx - mn) / (2 - mx - mn) else (mx - mn) / (mx + mn))"
      using False by (simp add: rgbToHsl_def Let_def mx_def mn_def)
    show ?thesis
    proof (cases "(mx + mn) / 2 > 0.5")
      case True
      have d: "0 < 2 - mx - mn" using lt mx by simp
      show ?thesis unfolding s using True d lt mx mn by (simp add: divide_le_eq_1)
    next
      case F: False
      have d: "0 < mx + mn" using lt mn by simp
      show ?thesis unfolding s using F d lt mx mn by (simp add: divide_le_eq_1)
    qed
  qed
qed

lemma hex_saturation_range: "0 \<le> hex_saturation hex \<and> hex_saturation hex \<le> 1"
  using hexToRgb_range [of hex] rgbToHsl_s_range
  by (simp add: hex_saturation_def Let_def)

lemma boosted_s_range: "0 \<le> boosted_s s boost \<and> boosted_s s boost \<le> 1"
  by (simp add: boosted_s_def clamp_def)

lemma boosted_s_one: "1 \<le> boost \<Longrightarrow> boosted_s 1 boost = 1"
  by (simp add: boosted_s_def clamp_def)

lemma sat_red: "hex_saturation ''#ff0000'' = 1"
  by (simp add: hex_saturation_def hexToRgb_def hex_exec_def hex_groups_def is_hex_digit_def
      parseInt16_def hex_digit_value_def rgbToHsl_def Let_def)






subsection \<open>The conversion to HSL and back\<close>

lemma hsl_q_p:
  fixes mx mn l s q :: real
  assumes "0 \<le> mn" "mn < mx" "mx \<le> 1"
    and "l = (mx + mn) / 2"
    and "s = (if l > 0.5 then (mx - mn) / (2 - mx - mn) else (mx - mn) / (mx + mn))"
    and "q = (if l < 0.5 then l * (1 + s) else l + s - l * s)"
  shows "q = mx \<and> 2 * l - q = mn"
proof -
  have a: "0 < mx + mn" "0 < 2 - mx - mn"
    using assms(1-3) by simp_all
  consider "l < 1 / 2" | "l = 1 / 2" | "l > 1 / 2"
    by linarith
  then have "q = mx"
  proof cases
    case 1
    then have "q = l + l * ((mx - mn) / (mx + mn))"
      using assms(5,6) by (simp add: algebra_simps)
    also have "l * ((mx - mn) / (mx + mn)) = (mx - mn) / 2"
      using a by (simp add: assms(4) field_simps)
    finally show ?thesis by (simp add: assms(4) field_simps)
  next
    case 2
    then have mm: "mx + mn = 1"
      using assms(4) by simp
    have "q = l + (mx - mn) - l * (mx - mn)"
      using 2 assms(5,6) mm by simp
    then have "q = 1 / 2 + (mx - mn) / 2"
      unfolding 2 by (simp add: field_simps)
    then show ?thesis
      using mm by argo
  next
    case 3
    then have "q = l + s - l * s"
      using assms(6) by simp
    then have "q = l + s * (1 - l)"
      by (simp add: algebra_simps)
    moreover have "s = (mx - mn) / (2 - mx - mn)"
      using 3 assms(5) by simp
    then have "s * (1 - l) = (mx - mn) / 2"
      using a by (simp add: assms(4) field_simps)
    ultimately show ?thesis by (simp add: assms(4) field_simps)
  qed
  then show ?thesis
    by (simp add: assms(4) field_simps)
qed

text \<open>With \<open>p\<close> the smallest channel, \<open>p + d\<close> the largest and \<open>u\<close> in [0, 1] the
  position of the hue inside one of the six sextants, \<^verbatim>\<open>hue2rgb\<close> returns the three
  channels.\<close>

lemma hue_sextant_0:
  fixes p d u :: real
  assumes "0 \<le> u" "u \<le> 1"
  shows "hue2rgb p (p + d) (u / 6 + 1 / 3) = p + d \<and> hue2rgb p (p + d) (u / 6) = p + u * d \<and>
         hue2rgb p (p + d) (u / 6 - 1 / 3) = p"
  using assms by (auto simp: hue2rgb_def Let_def field_simps)

lemma hue_sextant_1:
  fixes p d u :: real
  assumes "0 \<le> u" "u \<le> 1"
  shows "hue2rgb p (p + d) (1 / 3 - u / 6 + 1 / 3) = p + u * d \<and>
         hue2rgb p (p + d) (1 / 3 - u / 6) = p + d \<and>
         hue2rgb p (p + d) (1 / 3 - u / 6 - 1 / 3) = p"
  using assms by (auto simp: hue2rgb_def Let_def field_simps)

lemma hue_sextant_2:
  fixes p d u :: real
  assumes "0 \<le> u" "u \<le> 1"
  shows "hue2rgb p (p + d) (1 / 3 + u / 6 + 1 / 3) = p \<and>
         hue2rgb p (p + d) (1 / 3 + u / 6) = p + d \<and>
         hue2rgb p (p + d) (1 / 3 + u / 6 - 1 / 3) = p + u * d"
  using assms by (auto simp: hue2rgb_def Let_def field_simps)

lemma hue_sextant_3:
  fixes p d u :: real
  assumes "0 \<le> u" "u \<le> 1"
  shows "hue2rgb p (p + d) (2 / 3 - u / 6 + 1 / 3) = p \<and>
         hue2rgb p (p + d) (2 / 3 - u / 6) = p + u * d \<and>
         hue2rgb p (p + d) (2 / 3 - u / 6 - 1 / 3) = p + d"
  using assms by (auto simp: hue2rgb_def Let_def field_simps)

lemma hue_sextant_4:
  fixes p d u :: real
  assumes "0 \<le> u" "u \<le> 1"
  shows "hue2rgb p (p + d) (2 / 3 + u / 6 + 1 / 3) = p + u * d \<and>
         hue2rgb p (p + d) (2 / 3 + u / 6) = p \<and>
         hue2rgb p (p + d) (2 / 3 + u / 6 - 1 / 3) = p + d"
  using assms by (auto simp: hue2rgb_def Let_def field_simps)

lemma hue_sextant_5:
  fixes p d u :: real
  assumes "0 < u" "u \<le> 1"
  shows "hue2rgb p (p + d) (1 - u / 6 + 1 / 3) = p + d \<and>
         hue2rgb p (p + d) (1 - u / 6) = p \<and>
         hue2rgb p (p + d) (1 - u / 6 - 1 / 3) = p + u * d"
  using assms by (auto simp: hue2rgb_def Let_def field_simps)

lemma hue_roundtrip:
  fixes R G B mx mn d h :: real
  assumes mx: "mx = max (max R G) B" and mn: "mn = min (min R G) B" and lt: "mn < mx"
    and d: "d = mx - mn"
    and h: "h = (if mx = R then (G - B) / d + (if G < B then 6 else 0)
                 else if mx = G then (B - R) / d + 2
                 else (R - G) / d + 4) / 6"
  shows "hue2rgb mn mx (h + 1 / 3) = R \<and> hue2rgb mn mx h = G \<and> hue2rgb mn mx (h - 1 / 3) = B"
proof -
  have dpos: "0 < d"
    using lt d by simp
  have q: "mx = mn + d"
    using d by simp
  consider (A1) "mx = R" "B \<le> G" | (A2) "mx = R" "G < B"
    | (B1) "mx \<noteq> R" "mx = G" "R \<le> B" | (B2) "mx \<noteq> R" "mx = G" "B < R"
    | (C1) "mx \<noteq> R" "mx \<noteq> G" "G \<le> R" | (C2) "mx \<noteq> R" "mx \<noteq> G" "R < G"
    by linarith
  then show ?thesis
  proof cases
    case A1
    define u where "u = (G - B) / d"
    have m: "mn = B" "R = mn + d"
      using A1 mx mn q by (simp_all add: min_def max_def split: if_splits)
    have u: "0 \<le> u" "u \<le> 1" "u * d = G - B"
      using A1 m dpos mx by (simp_all add: u_def max_def split: if_splits)
    have hh: "h = u / 6"
      using A1 h by (simp add: u_def)
    show ?thesis
      using hue_sextant_0 [OF u(1,2), of mn d] u(3) m unfolding hh q by simp
  next
    case A2
    define u where "u = (B - G) / d"
    have m: "mn = G" "R = mn + d"
      using A2 mx mn q by (simp_all add: min_def max_def split: if_splits)
    have u: "0 < u" "u \<le> 1" "u * d = B - G"
      using A2 m dpos mx by (simp_all add: u_def max_def split: if_splits)
    have "(G - B) / d = - u"
      by (simp add: u_def minus_divide_left)
    then have hh: "h = 1 - u / 6"
      using A2 h by simp
    show ?thesis
      using hue_sextant_5 [OF u(1,2), of mn d] u(3) m unfolding hh q by simp
  next
    case B1
    define u where "u = (B - R) / d"
    have m: "mn = R" "G = mn + d"
      using B1 mx mn q by (simp_all add: min_def max_def split: if_splits)
    have u: "0 \<le> u" "u \<le> 1" "u * d = B - R"
      using B1 m dpos mx by (simp_all add: u_def max_def split: if_splits)
    have hh: "h = 1 / 3 + u / 6"
      using B1 h by (simp add: u_def)
    show ?thesis
      using hue_sextant_2 [OF u(1,2), of mn d] u(3) m unfolding hh q by simp
  next
    case B2
    define u where "u = (R - B) / d"
    have m: "mn = B" "G = mn + d"
      using B2 mx mn q by (simp_all add: min_def max_def split: if_splits)
    have u: "0 \<le> u" "u \<le> 1" "u * d = R - B"
      using B2 m dpos mx by (simp_all add: u_def max_def split: if_splits)
    have "(B - R) / d = - u"
      by (simp add: u_def minus_divide_left)
    then have hh: "h = 1 / 3 - u / 6"
      using B2 h by simp
    show ?thesis
      using hue_sextant_1 [OF u(1,2), of mn d] u(3) m unfolding hh q by simp
  next
    case C1
    define u where "u = (R - G) / d"
    have m: "mn = G" "B = mn + d"
      using C1 mx mn q by (simp_all add: min_def max_def split: if_splits)
    have u: "0 \<le> u" "u \<le> 1" "u * d = R - G"
      using C1 m dpos mx by (simp_all add: u_def max_def split: if_splits)
    have hh: "h = 2 / 3 + u / 6"
      using C1 h by (simp add: u_def)
    show ?thesis
      using hue_sextant_4 [OF u(1,2), of mn d] u(3) m unfolding hh q by simp
  next
    case C2
    define u where "u = (G - R) / d"
    have m: "mn = R" "B = mn + d"
      using C2 mx mn q by (simp_all add: min_def max_def split: if_splits)
    have u: "0 \<le> u" "u \<le> 1" "u * d = G - R"
      using C2 m dpos mx by (simp_all add: u_def max_def split: if_splits)
    have "(R - G) / d = - u"
      by (simp add: u_def minus_divide_left)
    then have hh: "h = 2 / 3 - u / 6"
      using C2 h by simp
    show ?thesis
      using hue_sextant_3 [OF u(1,2), of mn d] u(3) m unfolding hh q by simp
  qed
qed

lemma hslToRgb_rgbToHsl:
  assumes "0 \<le> r" "r \<le> 255" "0 \<le> g" "g \<le> 255" "0 \<le> b" "b \<le> 255"
    and "x = rgbToHsl r g b"
  shows "hslToRgb (hsl_h x) (hsl_s x) (hsl_l x) = \<lparr>rgb_r = r, rgb_g = g, rgb_b = b\<rparr>"
proof -
  define R G B where "R = r / 255" and "G = g / 255" and "B = b / 255"
  define mx mn where "mx = max (max R G) B" and "mn = min (min R G) B"
  define l where "l = (mx + mn) / 2"
  have rng: "0 \<le> mn" "mx \<le> 1"
    using assms(1-6) by (simp_all add: mx_def mn_def R_def G_def B_def)
  have le: "mn \<le> R" "mn \<le> G" "mn \<le> B" "R \<le> mx" "G \<le> mx" "B \<le> mx"
    by (simp_all add: mx_def mn_def min_le_iff_disj le_max_iff_disj)
  show ?thesis
  proof (cases "mx = mn")
    case True
    then have "R = mn" "G = mn" "B = mn"
      using le by simp_all
    then have "r = mn * 255" "g = mn * 255" "b = mn * 255"
      by (simp_all add: R_def G_def B_def)
    moreover have "x = \<lparr>hsl_h = 0, hsl_s = 0, hsl_l = mn\<rparr>"
      using True
      unfolding assms(7) rgbToHsl_def mx_def mn_def R_def G_def B_def Let_def
      by simp
    ultimately show ?thesis
      by (simp add: hslToRgb_def)
  next
    case False
    then have lt: "mn < mx"
      using le by linarith
    define d where "d = mx - mn"
    define s where "s = (if l > 0.5 then d / (2 - mx - mn) else d / (mx + mn))"
    define h where "h = (if mx = R then (G - B) / d + (if G < B then 6 else 0)
                         else if mx = G then (B - R) / d + 2
                         else (R - G) / d + 4) / 6"
    have x: "x = \<lparr>hsl_h = h, hsl_s = s, hsl_l = l\<rparr>"
      using False
      unfolding assms(7) rgbToHsl_def h_def s_def l_def d_def mx_def mn_def R_def G_def B_def
        Let_def
      by simp
    define q where "q = (if l < 0.5 then l * (1 + s) else l + s - l * s)"
    have s': "s = (if l > 0.5 then (mx - mn) / (2 - mx - mn) else (mx - mn) / (mx + mn))"
      by (simp add: s_def d_def)
    have qp: "q = mx" "2 * l - q = mn"
      using hsl_q_p [OF rng(1) lt rng(2) l_def s' q_def] by blast+
    have s0: "s \<noteq> 0"
    proof -
      have "0 < 2 - mx - mn" "0 < mx + mn" "0 < d"
        using lt rng by (simp_all add: d_def)
      then show ?thesis
        by (simp add: s_def)
    qed
    have hue: "hue2rgb mn mx (h + 1 / 3) = R" "hue2rgb mn mx h = G"
      "hue2rgb mn mx (h - 1 / 3) = B"
      using hue_roundtrip [OF mx_def mn_def lt d_def h_def] by simp_all
    have "hslToRgb h s l = \<lparr>rgb_r = hue2rgb mn mx (h + 1 / 3) * 255,
        rgb_g = hue2rgb mn mx h * 255, rgb_b = hue2rgb mn mx (h - 1 / 3) * 255\<rparr>"
      using s0 qp unfolding hslToRgb_def Let_def q_def by simp
    then show ?thesis
      by (simp add: x hue R_def G_def B_def)
  qed
qed

lemma boostSaturation_saturated:
  assumes "hex_saturation hex = 1" and "1 \<le> boost"
  shows "boostSaturation hex boost
         = rgbToHex (rgb_r (hexToRgb hex)) (rgb_g (hexToRgb hex)) (rgb_b (hexToRgb hex))"
proof -
  define c where "c = hexToRgb hex"
  define x where "x = rgbToHsl (rgb_r c) (rgb_g c) (rgb_b c)"
  have s: "hsl_s x = 1"
    using assms(1) by (simp add: hex_saturation_def Let_def x_def c_def)
  have "hslToRgb (hsl_h x) (hsl_s x) (hsl_l x)
      = \<lparr>rgb_r = rgb_r c, rgb_g = rgb_g c, rgb_b = rgb_b c\<rparr>"
    using hexToRgb_range [of hex] by (intro hslToRgb_rgbToHsl) (simp_all add: c_def x_def)
  then have "hslToRgb (hsl_h x) (boosted_s (hsl_s x) boost) (hsl_l x)
      = \<lparr>rgb_r = rgb_r c, rgb_g = rgb_g c, rgb_b = rgb_b c\<rparr>"
    using boosted_s_one [OF assms(2)] by (simp add: s)
  then show ?thesis
    by (simp add: boostSaturation_def Let_def c_def [symmetric] x_def [symmetric])
qed

lemma hexToRgb_channels:
  "\<exists>r g b :: int. 0 \<le> r \<and> r \<le> 255 \<and> 0 \<le> g \<and> g \<le> 255 \<and> 0 \<le> b \<and> b \<le> 255 \<and>
     hexToRgb hex = \<lparr>rgb_r = of_int r, rgb_g = of_int g, rgb_b = of_int b\<rparr>"
proof (cases "hex_exec hex")
  case None
  then have "hexToRgb hex = \<lparr>rgb_r = of_int 255, rgb_g = of_int 255, rgb_b = of_int 255\<rparr>"
    by (simp add: hexToRgb_def)
  then show ?thesis
    by (intro exI [of _ 255]) simp
next
  case (Some m)
  obtain m1 m2 m3 where m: "m = (m1, m2, m3)"
    by (cases m)
  have "hexToRgb hex = \<lparr>rgb_r = of_int (int (parseInt16 m1)),
      rgb_g = of_int (int (parseInt16 m2)), rgb_b = of_int (int (parseInt16 m3))\<rparr>"
    using Some m by (simp add: hexToRgb_def)
  moreover have "int (parseInt16 m1) \<le> 255" "int (parseInt16 m2) \<le> 255"
    "int (parseInt16 m3) \<le> 255"
    using hex_exec_Some [of hex m1 m2 m3] Some m by simp_all
  ultimately show ?thesis
    by (intro exI [of _ "int (parseInt16 m1)"] exI [of _ "int (parseInt16 m2)"]
        exI [of _ "int (parseInt16 m3)"]) simp
qed

text \<open>On every fully saturated color the boost returns the color with its green and
  blue channels exchanged.\<close>

lemma boostSaturation_saturated_swaps:
  assumes "hex_saturation hex = 1" and "1 \<le> boost"
  shows "hexToRgb (boostSaturation hex boost)
         = \<lparr>rgb_r = rgb_r (hexToRgb hex), rgb_g = rgb_b (hexToRgb hex),
            rgb_b = rgb_g (hexToRgb hex)\<rparr>"
proof -
  obtain r g b :: int where c: "0 \<le> r" "r \<le> 255" "0 \<le> g" "g \<le> 255" "0 \<le> b" "b \<le> 255"
      "hexToRgb hex = \<lparr>rgb_r = of_int r, rgb_g = of_int g, rgb_b = of_int b\<rparr>"
    using hexToRgb_channels [of hex] by blast
  show ?thesis
    unfolding boostSaturation_saturated [OF assms]
    using hexToRgb_rgbToHex [OF c(1-6)] by (simp add: c(7))
qed

subsection \<open>The boost on saturated colors\<close>








section \<open>The wedge renderer: properties\<close>

lemma arctan_le_self:
  fixes x :: real
  assumes "0 \<le> x"
  shows "arctan x \<le> x"
proof -
  have "(\<lambda>u. u - arctan u) 0 \<le> (\<lambda>u. u - arctan u) x"
  proof (rule DERIV_nonneg_imp_nondecreasing [OF assms])
    fix u :: real
    have d: "DERIV (\<lambda>u. u - arctan u) u :> 1 - inverse (1 + u\<^sup>2)"
      by (intro derivative_eq_intros DERIV_arctan | simp)+
    have "inverse (1 + u\<^sup>2) \<le> 1"
      by (simp add: inverse_le_1_iff)
    then show "\<exists>y. DERIV (\<lambda>u. u - arctan u) u :> y \<and> 0 \<le> y"
      using d by (intro exI [of _ "1 - inverse (1 + u\<^sup>2)"]) simp
  qed
  then show ?thesis by simp
qed

lemma pi_le_16_5: "pi \<le> 3.2"
proof -
  have "arctan (1 / 5) \<le> (1 / 5 :: real)"
    by (rule arctan_le_self) simp
  moreover have "0 \<le> arctan (1 / 239 :: real)"
    by simp
  ultimately have "4 * arctan (1 / 5) - arctan (1 / 239) \<le> (4 / 5 :: real)"
    by linarith
  then show ?thesis
    using machin by simp
qed

lemma pi_ge_3: "3 \<le> pi"
proof -
  have "sin (pi / 6) \<le> pi / 6"
    by (rule sin_x_le_x) simp
  then show ?thesis
    by (simp add: sin_30)
qed

lemma sin_88_less_cos_1204: "sin (8.8 :: real) < cos 12.04"
proof -
  have s: "sin (8.8 :: real) = cos (8.8 - 5 * pi / 2)"
  proof -
    have "cos (8.8 - 5 * pi / 2) = cos ((8.8 - pi / 2) - 2 * pi)"
      by (simp add: field_simps)
    also have "\<dots> = cos (8.8 - pi / 2)"
      using cos_periodic [of "(8.8 - pi / 2) - 2 * pi"] by simp
    also have "\<dots> = sin 8.8"
      by (simp add: cos_diff)
    finally show ?thesis by simp
  qed
  have c: "cos (12.04 :: real) = cos \<bar>12.04 - 4 * pi\<bar>"
  proof -
    have "cos (12.04 - 4 * pi) = cos (12.04 :: real)"
      using cos_periodic [of "12.04 - 4 * pi"] cos_periodic [of "12.04 - 2 * pi"]
      by (simp add: field_simps)
    then show ?thesis
      by (simp only: cos_abs_real)
  qed
  have "cos (8.8 - 5 * pi / 2) < cos \<bar>12.04 - 4 * pi\<bar>"
    using pi_ge_3 pi_le_16_5 by (intro cos_monotone_0_pi) (simp_all add: abs_if)
  then show ?thesis
    by (simp only: s [symmetric] c [symmetric])
qed

lemma buildGeometry_nth:
  assumes "j \<le> nat L"
  shows "geo_t (buildGeometry L theta cx) ! j = real j / real_of_int L"
    and "geo_sinPhi1 (buildGeometry L theta cx) ! j = sin (harmonic_k1 cx * (real j / real_of_int L))"
    and "geo_cosPhi1 (buildGeometry L theta cx) ! j = cos (harmonic_k1 cx * (real j / real_of_int L))"
    and "geo_sinPhi2 (buildGeometry L theta cx) ! j = sin (harmonic_k2 cx * (real j / real_of_int L))"
    and "geo_cosPhi2 (buildGeometry L theta cx) ! j = cos (harmonic_k2 cx * (real j / real_of_int L))"
    and "geo_sinPhi3 (buildGeometry L theta cx) ! j = sin (harmonic_k3 cx * (real j / real_of_int L * 1.2))"
    and "geo_cosPhi3 (buildGeometry L theta cx) ! j = cos (harmonic_k3 cx * (real j / real_of_int L * 1.2))"
proof -
  have j: "j < length [0..<nat L + 1]"
    using assms by simp
  have n: "[0..<nat L + 1] ! j = j"
    using assms by (simp del: upt_Suc)
  show "geo_t (buildGeometry L theta cx) ! j = real j / real_of_int L"
    and "geo_sinPhi1 (buildGeometry L theta cx) ! j = sin (harmonic_k1 cx * (real j / real_of_int L))"
    and "geo_cosPhi1 (buildGeometry L theta cx) ! j = cos (harmonic_k1 cx * (real j / real_of_int L))"
    and "geo_sinPhi2 (buildGeometry L theta cx) ! j = sin (harmonic_k2 cx * (real j / real_of_int L))"
    and "geo_cosPhi2 (buildGeometry L theta cx) ! j = cos (harmonic_k2 cx * (real j / real_of_int L))"
    and "geo_sinPhi3 (buildGeometry L theta cx) ! j = sin (harmonic_k3 cx * (real j / real_of_int L * 1.2))"
    and "geo_cosPhi3 (buildGeometry L theta cx) ! j = cos (harmonic_k3 cx * (real j / real_of_int L * 1.2))"
    unfolding buildGeometry_def Let_def
    by (simp_all only: geometry.simps nth_map [OF j] n)
qed

lemma wedge_Rnorm_buildGeometry:
  assumes "j \<le> nat L"
  shows "wedge_Rnorm (buildGeometry L theta cx) S j =
     0.55
     + 0.30 * sin (harmonic_k1 cx * (real j / real_of_int L) + frame_a1 S)
     + 0.15 * sin (harmonic_k2 cx * (real j / real_of_int L) + frame_a2 S)
     + 0.10 * sin (harmonic_k3 cx * (real j / real_of_int L * 1.2) + frame_a3 S)"
  unfolding wedge_Rnorm_def Let_def buildGeometry_nth [OF assms] sin_add ..

lemma frame_phases_initial:
  "frame_a1 initial_state = 0" "frame_a2 initial_state = 0.2" "frame_a3 initial_state = 0"
  by (simp_all add: frame_a1_def frame_a2_def frame_a3_def initial_state_def)

lemma scenario_v16:
  "wedge_Rnorm (buildGeometry 1400 theta 6) initial_state 700
   = 0.55 + 0.30 * sin 5.7 + 0.15 * sin 8.8 + 0.10 * sin 10.56"
proof -
  have "(700::nat) \<le> nat 1400" by simp
  from wedge_Rnorm_buildGeometry [OF this, of theta 6 initial_state]
  show ?thesis
    by (simp add: frame_phases_initial harmonic_k1_def harmonic_k2_def harmonic_k3_def)
qed

lemma scenario_closed:
  "Rnorm_closed_form 6 initial_state 0.5
   = 0.55 + 0.30 * sin 5.7 + 0.15 * cos 12.04 + 0.10 * sin 10.56"
  by (simp add: Rnorm_closed_form_def Let_def initial_state_def harmonic_k1_def harmonic_k2_def
      harmonic_k3_def)

lemma scenario_differs:
  "wedge_Rnorm (buildGeometry 1400 theta 6) initial_state 700
   < Rnorm_closed_form 6 initial_state 0.5"
  unfolding scenario_v16 scenario_closed using sin_88_less_cos_1204 by simp

lemma scenario_sample: "geo_t (buildGeometry 1400 theta 6) ! 700 = 0.5"
proof -
  have "(700::nat) \<le> nat 1400"
    by simp
  from buildGeometry_nth(1) [OF this, of theta 6] show ?thesis
    by simp
qed

text \<open>
  Claim C1 as stated fails.  In the scenario (complexity 6, 12 segments, pattern time
  and swirl phase 0) the sample with parameter 0.5 is number 700 of 1400; the renderer
  computes \<open>0.55 + 0.30 sin 5.7 + 0.15 sin 8.8 + 0.10 sin 10.56\<close> there, the closed-form
  sum is \<open>0.55 + 0.30 sin 5.7 + 0.15 cos 12.04 + 0.10 sin 10.56\<close>, and
  \<open>sin 8.8 < cos 12.04\<close>.
\<close>

theorem harmonic_refinement_counterexample:
  "geo_t (buildGeometry (sampleCount 12 6) (wedge_theta 12) 6) ! 700 = 0.5 \<and>
   st_t initial_state = 0 \<and> st_swirl initial_state = 0 \<and>
   wedge_Rnorm (buildGeometry (sampleCount 12 6) (wedge_theta 12) 6) initial_state 700
     \<noteq> Rnorm_closed_form 6 initial_state 0.5"
  using scenario_differs [of "wedge_theta 12"] scenario_sample [of "wedge_theta 12"]
  by (simp add: sampleCount_12_6 initial_state_def)

text \<open>
  Claim C1, amended: at every cached sample \<open>t = j / L\<close> (in particular at \<open>t = 0.5\<close>
  in the scenario of complexity 6 and 12 segments with pattern time and swirl phase 0),
  the radial value of the wedge renderer, computed by angle addition from the cached
  base phases and the frame phases \<open>a1\<close>, \<open>a2\<close>, \<open>a3\<close>, equals
  \<open>0.55 + 0.30 sin (k1 t + a1) + 0.15 sin (k2 t + a2) + 0.10 sin (k3 1.2 t + a3)\<close>.
\<close>

theorem wedge_Rnorm_angle_addition:
  assumes "j \<le> nat L" and "G = buildGeometry L theta complexity" and "t = geo_t G ! j"
  shows "t = real j / real_of_int L \<and>
         wedge_Rnorm G S j =
           0.55
           + 0.30 * sin (harmonic_k1 complexity * t + frame_a1 S)
           + 0.15 * sin (harmonic_k2 complexity * t + frame_a2 S)
           + 0.10 * sin (harmonic_k3 complexity * (t * 1.2) + frame_a3 S)"
  using wedge_Rnorm_buildGeometry [OF assms(1), of theta complexity S]
    buildGeometry_nth(1) [OF assms(1), of theta complexity]
  by (simp add: assms(2,3))

theorem wedge_Rnorm_angle_addition_witness:
  "700 \<le> nat (sampleCount 12 6) \<and>
   geo_t (buildGeometry (sampleCount 12 6) (wedge_theta 12) 6) ! 700 = 0.5 \<and>
   wedge_Rnorm (buildGeometry (sampleCount 12 6) (wedge_theta 12) 6) initial_state 700
     = 0.55 + 0.30 * sin 5.7 + 0.15 * sin 8.8 + 0.10 * sin 10.56"
proof -
  have h: "700 \<le> nat (sampleCount 12 6)"
    by (simp add: sampleCount_12_6)
  show ?thesis
    using h wedge_Rnorm_angle_addition [OF h refl refl, of "wedge_theta 12" 6 initial_state]
    by (simp add: sampleCount_12_6 scenario_sample frame_phases_initial harmonic_k1_def
        harmonic_k2_def harmonic_k3_def)
qed

end
